theory Spec2Isabelle
  imports Complex_Main "HOL-Library.Sublist" "HOL-Library.Multiset"
begin

section \<open>Python values used by the clip pipeline\<close>

text \<open>
  The pipeline is Python. Strings are modelled as \<open>string\<close> (ASCII), Python integers as
  \<open>int\<close>, and the seconds of a transcript (Python floats) as \<open>real\<close>: the code only
  subtracts and compares them. Every exception the modelled code can raise is a value of
  \<open>error\<close>, and a function that can raise returns \<open>error + 'a\<close>.
\<close>

datatype error = ValueError | NameError | TypeError | CollaboratorError

subsection \<open>Strings: \<open>str.strip\<close>, \<open>str.split\<close>, \<open>str\<close> and \<open>int\<close>\<close>

definition is_space :: "char \<Rightarrow> bool" where
  \<comment> \<open>the ASCII characters for which \<open>str.isspace\<close> holds: TAB, LF, VT, FF, CR, FS, GS, RS, US, SPACE\<close>
  "is_space c = (of_char c \<in> set [9, 10, 11, 12, 13, 28, 29, 30, 31, 32 :: nat])"

definition strip :: "string \<Rightarrow> string" where
  \<comment> \<open>\<open>s.strip()\<close>: whitespace removed at both ends\<close>
  "strip s = rev (dropWhile is_space (rev (dropWhile is_space s)))"

fun split_on :: "char \<Rightarrow> string \<Rightarrow> string list" where
  \<comment> \<open>\<open>s.split(c)\<close> for a one-character separator: always at least one part\<close>
  "split_on c [] = [[]]"
| "split_on c (x # xs) =
     (if x = c then [] # split_on c xs
      else (case split_on c xs of [] \<Rightarrow> [[x]] | p # ps \<Rightarrow> (x # p) # ps))"

definition digit_char :: "nat \<Rightarrow> char" where
  "digit_char d = char_of (48 + d)"

fun digits :: "nat \<Rightarrow> string" where
  \<comment> \<open>the decimal digits of a natural number, most significant first\<close>
  "digits n = (if n < 10 then [digit_char n] else digits (n div 10) @ [digit_char (n mod 10)])"

declare digits.simps [simp del]

definition py_str :: "int \<Rightarrow> string" where
  \<comment> \<open>\<open>str(i)\<close>, also what \<open>f"{i}"\<close> renders\<close>
  "py_str i = (if i < 0 then CHR ''-'' # digits (nat (- i)) else digits (nat i))"

definition format_02d :: "int \<Rightarrow> string" where
  \<comment> \<open>\<open>f"{i:02d}"\<close>: zero padding to width 2, after the sign\<close>
  "format_02d i =
     (if i < 0 then CHR ''-'' # replicate (1 - length (digits (nat (- i)))) CHR ''0'' @ digits (nat (- i))
      else replicate (2 - length (digits (nat i))) CHR ''0'' @ digits (nat i))"

definition is_digit :: "char \<Rightarrow> bool" where
  "is_digit c = (48 \<le> (of_char c :: nat) \<and> (of_char c :: nat) \<le> 57)"

definition digit_val :: "char \<Rightarrow> nat" where
  "digit_val c = of_char c - 48"

fun literal_ok :: "bool \<Rightarrow> string \<Rightarrow> bool" where
  \<comment> \<open>digits, with single underscores allowed between two digits; the flag says whether
      the previous character was a digit\<close>
  "literal_ok prev [] = prev"
| "literal_ok prev (c # cs) =
     (if is_digit c then literal_ok True cs
      else if c = CHR ''_'' \<and> prev then literal_ok False cs
      else False)"

definition literal_value :: "string \<Rightarrow> nat" where
  "literal_value s = foldl (\<lambda>a c. 10 * a + digit_val c) 0 (filter is_digit s)"

definition is_int_space :: "char \<Rightarrow> bool" where
  \<comment> \<open>the whitespace that \<open>int()\<close> skips around a number: TAB, LF, VT, FF, CR, SPACE\<close>
  "is_int_space c = (of_char c \<in> set [9, 10, 11, 12, 13, 32 :: nat])"

definition int_strip :: "string \<Rightarrow> string" where
  "int_strip s = rev (dropWhile is_int_space (rev (dropWhile is_int_space s)))"

definition py_int :: "string \<Rightarrow> error + int" where
  \<comment> \<open>\<open>int(s)\<close> in base 10: surrounding whitespace, an optional sign, then the literal\<close>
  "py_int s =
     (case int_strip s of
        [] \<Rightarrow> Inl ValueError
      | c # cs \<Rightarrow>
          if c = CHR ''-'' then (if literal_ok False cs then Inr (- int (literal_value cs)) else Inl ValueError)
          else if c = CHR ''+'' then (if literal_ok False cs then Inr (int (literal_value cs)) else Inl ValueError)
          else if literal_ok False (c # cs) then Inr (int (literal_value (c # cs))) else Inl ValueError)"

section \<open>utils.py: clock strings\<close>

definition format_time :: "int \<Rightarrow> string" where
  "format_time seconds0 =
     (let minutes0 = seconds0 div 60;
          seconds = seconds0 mod 60;
          hours = minutes0 div 60;
          minutes = minutes0 mod 60
      in if hours > 0
         then py_str hours @ '':'' @ format_02d minutes @ '':'' @ format_02d seconds
         else py_str minutes @ '':'' @ format_02d seconds)"

definition convert_time_to_seconds :: "string \<Rightarrow> error + int" where
  "convert_time_to_seconds time_str =
     (let parts = split_on CHR '':'' time_str in
      if length parts = 3 then
        (case py_int (parts ! 0) of
           Inl e \<Rightarrow> Inl e
         | Inr h \<Rightarrow>
             (case py_int (parts ! 1) of
                Inl e \<Rightarrow> Inl e
              | Inr m \<Rightarrow>
                  (case py_int (parts ! 2) of
                     Inl e \<Rightarrow> Inl e
                   | Inr s \<Rightarrow> Inr (h * 3600 + m * 60 + s))))
      else if length parts = 2 then
        (case py_int (parts ! 0) of
           Inl e \<Rightarrow> Inl e
         | Inr m \<Rightarrow>
             (case py_int (parts ! 1) of
                Inl e \<Rightarrow> Inl e
              | Inr s \<Rightarrow> Inr (m * 60 + s)))
      else Inl ValueError)"

section \<open>content_analysis.py: selecting the important segments\<close>

text \<open>
  A transcript segment is one of Whisper's segment dictionaries: it carries \<open>text\<close>,
  \<open>start\<close> and \<open>end\<close>, and may carry word-level timestamps. On such a dictionary
  \<open>seg.get('text', '')\<close>, \<open>seg.get('start', 0.0)\<close> and \<open>seg.get('start')\<close> are the stored
  values and never the defaults. The selected segments are dictionaries with exactly the
  first three keys, so they are segments again and the functions below accept both
  (\<open>'a segment_scheme\<close>).
\<close>

record segment =
  seg_text :: string
  seg_start :: real
  seg_end :: real

record word_info =
  word_text :: string
  word_start :: real
  word_end :: real

record transcript_segment = segment +
  seg_words :: "word_info list option"

record basic_candidate = segment +
  b_duration :: real
  text_length :: nat

record scored_candidate = segment +
  original_score :: nat
  duration :: real

definition sort_key_reverse :: "('a \<Rightarrow> 'k::linorder) \<Rightarrow> 'a list \<Rightarrow> 'a list" where
  \<comment> \<open>\<open>xs.sort(key=f, reverse=True)\<close>: descending and stable, elements with equal keys keep
      their order (the list is reversed, sorted stably, and reversed back)\<close>
  "sort_key_reverse f xs = rev (sort_key f (rev xs))"

definition py_slice_to :: "int \<Rightarrow> 'a list \<Rightarrow> 'a list" where
  \<comment> \<open>\<open>xs[:n]\<close>: a negative \<open>n\<close> counts from the end of the list\<close>
  "py_slice_to n xs = (if n < 0 then take (length xs - nat (- n)) xs else take (nat n) xs)"

definition project :: "'a segment_scheme \<Rightarrow> segment" where
  \<comment> \<open>\<open>{'text': s['text'], 'start': s['start'], 'end': s['end']}\<close>\<close>
  "project s = \<lparr>seg_text = seg_text s, seg_start = seg_start s, seg_end = seg_end s\<rparr>"

fun basic_valid_segments :: "real \<Rightarrow> 'a segment_scheme list \<Rightarrow> basic_candidate list" where
  "basic_valid_segments min_segment_duration [] = []"
| "basic_valid_segments min_segment_duration (seg # segs) =
     (let d = seg_end seg - seg_start seg in
      if d \<ge> min_segment_duration \<and> strip (seg_text seg) \<noteq> []
      then \<lparr>seg_text = strip (seg_text seg), seg_start = seg_start seg, seg_end = seg_end seg,
            b_duration = d, text_length = length (strip (seg_text seg))\<rparr>
           # basic_valid_segments min_segment_duration segs
      else basic_valid_segments min_segment_duration segs)"

definition basic_ranked :: "real \<Rightarrow> 'a segment_scheme list \<Rightarrow> basic_candidate list" where
  \<comment> \<open>\<open>valid_segments\<close> after \<open>valid_segments.sort(key=text_length, reverse=True)\<close>\<close>
  "basic_ranked min_segment_duration transcription_segments =
     sort_key_reverse text_length (basic_valid_segments min_segment_duration transcription_segments)"

definition find_important_segments_basic :: "'a segment_scheme list \<Rightarrow> int \<Rightarrow> real \<Rightarrow> segment list" where
  "find_important_segments_basic transcription_segments num_segments min_segment_duration =
     (if transcription_segments = [] then []
      else
        let valid_segments = basic_ranked min_segment_duration transcription_segments;
            selected_segments = sort_key seg_start (py_slice_to num_segments valid_segments)
        in map project selected_segments)"

text \<open>
  \<open>spacy.load\<close> either returns the tagger or raises; the tagger is modelled by the list of
  part-of-speech tags of the tokens it finds in a text, and is taken to return on every
  text.
\<close>

datatype spacy_load = Loaded "string \<Rightarrow> string list" | RaisedOSError | RaisedOther

definition pos_score :: "string list \<Rightarrow> nat" where
  "pos_score doc = length (filter (\<lambda>pos. pos \<in> set [''NOUN'', ''PROPN'', ''VERB'']) doc)"

fun scored_segments :: "(string \<Rightarrow> string list) \<Rightarrow> 'a segment_scheme list \<Rightarrow> scored_candidate list" where
  "scored_segments nlp [] = []"
| "scored_segments nlp (segment_data # rest) =
     (let text = strip (seg_text segment_data) in
      if text = [] then scored_segments nlp rest
      else \<lparr>seg_text = text, seg_start = seg_start segment_data, seg_end = seg_end segment_data,
            original_score = pos_score (nlp text),
            duration = seg_end segment_data - seg_start segment_data\<rparr>
           # scored_segments nlp rest)"

definition candidate_segments ::
  "(string \<Rightarrow> string list) \<Rightarrow> real \<Rightarrow> 'a segment_scheme list \<Rightarrow> scored_candidate list" where
  "candidate_segments nlp min_segment_duration transcription_segments =
     filter (\<lambda>seg. duration seg \<ge> min_segment_duration) (scored_segments nlp transcription_segments)"

definition spacy_ranked ::
  "(string \<Rightarrow> string list) \<Rightarrow> real \<Rightarrow> 'a segment_scheme list \<Rightarrow> scored_candidate list" where
  \<comment> \<open>\<open>candidate_segments\<close> after \<open>candidate_segments.sort(key=original_score, reverse=True)\<close>\<close>
  "spacy_ranked nlp min_segment_duration transcription_segments =
     sort_key_reverse original_score (candidate_segments nlp min_segment_duration transcription_segments)"

definition find_important_segments ::
  "spacy_load \<Rightarrow> 'a segment_scheme list \<Rightarrow> int \<Rightarrow> real \<Rightarrow> segment list" where
  "find_important_segments loaded transcription_segments num_segments min_segment_duration =
     (case loaded of
        RaisedOSError \<Rightarrow>
          find_important_segments_basic transcription_segments num_segments min_segment_duration
      | RaisedOther \<Rightarrow>
          find_important_segments_basic transcription_segments num_segments min_segment_duration
      | Loaded nlp \<Rightarrow>
          if transcription_segments = [] then []
          else if candidate_segments nlp min_segment_duration transcription_segments = [] then []
          else
            let top_segments =
                  sort_key seg_start
                    (py_slice_to num_segments (spacy_ranked nlp min_segment_duration transcription_segments))
            in map project top_segments)"

section \<open>content_analysis.py: windows of a transcript\<close>

text \<open>
  \<open>split_transcript_by_timestamps\<close> calls \<open>format_time\<close> by name. A Python name is looked up
  in the module's globals when the call is evaluated, so the lookup is part of the model:
  \<open>Some f\<close> is a binding of the name, \<open>None\<close> is no binding, and calling an unbound name
  raises \<open>NameError\<close>. The argument \<open>None\<close> for the transcript stands for a result that is
  falsy or has no \<open>segments\<close> key.
\<close>

record window =
  win_time :: string
  win_text :: string

record window_state =
  segments_text_time :: "window list"
  current_segment_texts :: "string list"
  current_segment_start_time :: "real option"
  last_word_end_time :: real

definition emit_window ::
  "(real \<Rightarrow> string) option \<Rightarrow> real option \<Rightarrow> real \<Rightarrow> string list \<Rightarrow> error + window" where
  \<comment> \<open>\<open>{"time": f"{format_time(a)} - {format_time(b)}", "text": "".join(texts)}\<close>\<close>
  "emit_window fmt a b texts =
     (case fmt of
        None \<Rightarrow> Inl NameError
      | Some f \<Rightarrow>
          (case a of
             None \<Rightarrow> Inl TypeError
           | Some a' \<Rightarrow> Inr \<lparr>win_time = f a' @ '' - '' @ f b, win_text = concat texts\<rparr>))"

definition word_step ::
  "(real \<Rightarrow> string) option \<Rightarrow> real \<Rightarrow> window_state \<Rightarrow> word_info \<Rightarrow> error + window_state" where
  "word_step fmt interval st word_info =
     (let start0 = (case current_segment_start_time st of
                      None \<Rightarrow> word_start word_info | Some c \<Rightarrow> c)
      in if (word_start word_info - last_word_end_time st > interval / 2 \<and> last_word_end_time st \<noteq> 0)
            \<or> (word_end word_info - start0 > interval)
         then
           (if current_segment_texts st \<noteq> []
            then (case emit_window fmt (Some start0) (last_word_end_time st) (current_segment_texts st) of
                    Inl e \<Rightarrow> Inl e
                  | Inr w \<Rightarrow>
                      Inr \<lparr>segments_text_time = segments_text_time st @ [w],
                           current_segment_texts = [word_text word_info],
                           current_segment_start_time = Some (word_start word_info),
                           last_word_end_time = word_end word_info\<rparr>)
            else Inr \<lparr>segments_text_time = segments_text_time st,
                      current_segment_texts = current_segment_texts st @ [word_text word_info],
                      current_segment_start_time = Some (word_start word_info),
                      last_word_end_time = word_end word_info\<rparr>)
         else Inr \<lparr>segments_text_time = segments_text_time st,
                   current_segment_texts = current_segment_texts st @ [word_text word_info],
                   current_segment_start_time = Some start0,
                   last_word_end_time = word_end word_info\<rparr>)"

fun words_loop ::
  "(real \<Rightarrow> string) option \<Rightarrow> real \<Rightarrow> window_state \<Rightarrow> word_info list \<Rightarrow> error + window_state" where
  "words_loop fmt interval st [] = Inr st"
| "words_loop fmt interval st (w # ws) =
     (case word_step fmt interval st w of
        Inl e \<Rightarrow> Inl e
      | Inr st' \<Rightarrow> words_loop fmt interval st' ws)"

definition segment_step ::
  "(real \<Rightarrow> string) option \<Rightarrow> real \<Rightarrow> window_state \<Rightarrow> transcript_segment \<Rightarrow> error + window_state" where
  "segment_step fmt interval st segment_info =
     (let start0 = (case current_segment_start_time st of
                      None \<Rightarrow> seg_start segment_info | Some c \<Rightarrow> c)
      in case seg_words segment_info of
           Some ws \<Rightarrow> words_loop fmt interval (st\<lparr>current_segment_start_time := Some start0\<rparr>) ws
         | None \<Rightarrow>
             if (seg_start segment_info - last_word_end_time st > interval / 2 \<and> last_word_end_time st \<noteq> 0)
                \<or> (seg_end segment_info - start0 > interval)
             then
               (if current_segment_texts st \<noteq> []
                then (case emit_window fmt (Some start0)
                             (if last_word_end_time st > start0 then last_word_end_time st
                              else seg_start segment_info)
                             (current_segment_texts st) of
                        Inl e \<Rightarrow> Inl e
                      | Inr w \<Rightarrow>
                          Inr \<lparr>segments_text_time = segments_text_time st @ [w],
                               current_segment_texts = [seg_text segment_info],
                               current_segment_start_time = Some (seg_start segment_info),
                               last_word_end_time = seg_end segment_info\<rparr>)
                else Inr \<lparr>segments_text_time = segments_text_time st,
                          current_segment_texts = current_segment_texts st @ [seg_text segment_info],
                          current_segment_start_time = Some (seg_start segment_info),
                          last_word_end_time = seg_end segment_info\<rparr>)
             else Inr \<lparr>segments_text_time = segments_text_time st,
                       current_segment_texts = current_segment_texts st @ [seg_text segment_info],
                       current_segment_start_time = Some start0,
                       last_word_end_time = seg_end segment_info\<rparr>)"

fun segments_loop ::
  "(real \<Rightarrow> string) option \<Rightarrow> real \<Rightarrow> window_state \<Rightarrow> transcript_segment list \<Rightarrow> error + window_state" where
  "segments_loop fmt interval st [] = Inr st"
| "segments_loop fmt interval st (s # ss) =
     (case segment_step fmt interval st s of
        Inl e \<Rightarrow> Inl e
      | Inr st' \<Rightarrow> segments_loop fmt interval st' ss)"

definition split_windows ::
  "(real \<Rightarrow> string) option \<Rightarrow> transcript_segment list option \<Rightarrow> real \<Rightarrow> error + window list" where
  "split_windows fmt transcription_result interval =
     (case transcription_result of
        None \<Rightarrow> Inr []
      | Some segments \<Rightarrow>
          (case segments_loop fmt interval
                  \<lparr>segments_text_time = [], current_segment_texts = [],
                   current_segment_start_time = None, last_word_end_time = 0\<rparr> segments of
             Inl e \<Rightarrow> Inl e
           | Inr st \<Rightarrow>
               if current_segment_texts st \<noteq> []
               then (case emit_window fmt (current_segment_start_time st) (last_word_end_time st)
                            (current_segment_texts st) of
                       Inl e \<Rightarrow> Inl e
                     | Inr w \<Rightarrow> Inr (segments_text_time st @ [w]))
               else Inr (segments_text_time st)))"

definition content_analysis_format_time :: "(real \<Rightarrow> string) option" where
  \<comment> \<open>the name \<open>format_time\<close> in the globals of content_analysis.py: its import is commented
      out (line 4) and the module binds the name nowhere else\<close>
  "content_analysis_format_time = None"

definition split_transcript_by_timestamps ::
  "transcript_segment list option \<Rightarrow> real \<Rightarrow> error + window list" where
  "split_transcript_by_timestamps = split_windows content_analysis_format_time"

definition fragments :: "transcript_segment list \<Rightarrow> string list" where
  \<comment> \<open>the text fragments of the input, in order: the words of a segment that has words,
      the text of a segment that has none\<close>
  "fragments segments =
     concat (map (\<lambda>s. case seg_words s of Some ws \<Rightarrow> map word_text ws | None \<Rightarrow> [seg_text s]) segments)"

definition state_text :: "window_state \<Rightarrow> string" where
  \<comment> \<open>all text a loop state holds: the windows emitted so far, then the open buffer\<close>
  "state_text st = concat (map win_text (segments_text_time st)) @ concat (current_segment_texts st)"

section \<open>main.py: the per-segment stages of the workflow\<close>

subsection \<open>The caption set of a clip\<close>

definition relevant_whisper_segments ::
  "'b segment_scheme \<Rightarrow> 'a segment_scheme list \<Rightarrow> 'a segment_scheme list" where
  "relevant_whisper_segments segment_data segments =
     filter (\<lambda>ws. seg_start ws < seg_end segment_data \<and> seg_end ws > seg_start segment_data) segments"

fun adjust_loop :: "'b segment_scheme \<Rightarrow> 'a segment_scheme list \<Rightarrow> segment list" where
  "adjust_loop segment_data [] = []"
| "adjust_loop segment_data (ws # rest) =
     (let text = strip (seg_text ws) in
      if text = [] then adjust_loop segment_data rest
      else
        let new_start = max 0 (seg_start ws - seg_start segment_data);
            new_end = seg_end ws - seg_start segment_data
        in if new_end > new_start
           then \<lparr>seg_text = text, seg_start = new_start, seg_end = new_end\<rparr>
                # adjust_loop segment_data rest
           else adjust_loop segment_data rest)"

definition adjusted_transcription_segments ::
  "'b segment_scheme \<Rightarrow> 'a segment_scheme list \<Rightarrow> segment list" where
  "adjusted_transcription_segments segment_data segments =
     adjust_loop segment_data (relevant_whisper_segments segment_data segments)"

text \<open>
  The caption set as the specification words it: the original segments that overlap the
  record's range, without those whose rebased duration is not positive or whose trimmed text
  is empty, each with its timestamps rebased (and its text trimmed). Two ranges overlap when
  each starts before the other ends.
\<close>

definition overlaps_record :: "'b segment_scheme \<Rightarrow> 'a segment_scheme \<Rightarrow> bool" where
  "overlaps_record record orig = (seg_start orig < seg_end record \<and> seg_start record < seg_end orig)"

definition rebased_start :: "'b segment_scheme \<Rightarrow> 'a segment_scheme \<Rightarrow> real" where
  "rebased_start record orig = max 0 (seg_start orig - seg_start record)"

definition rebased_end :: "'b segment_scheme \<Rightarrow> 'a segment_scheme \<Rightarrow> real" where
  "rebased_end record orig = seg_end orig - seg_start record"

definition spec_caption_set :: "'b segment_scheme \<Rightarrow> 'a segment_scheme list \<Rightarrow> segment list" where
  "spec_caption_set record segments =
     map (\<lambda>orig. \<lparr>seg_text = strip (seg_text orig), seg_start = rebased_start record orig,
                   seg_end = rebased_end record orig\<rparr>)
       (filter (\<lambda>orig. overlaps_record record orig
                  \<and> \<not> (rebased_end record orig - rebased_start record orig \<le> 0)
                  \<and> strip (seg_text orig) \<noteq> [])
          segments)"

subsection \<open>Paths\<close>

definition path_join :: "string \<Rightarrow> string \<Rightarrow> string" where
  \<comment> \<open>\<open>os.path.join(a, b)\<close> on POSIX\<close>
  "path_join a b =
     (if b \<noteq> [] \<and> hd b = CHR ''/'' then b
      else if a = [] \<or> last a = CHR ''/'' then a @ b
      else a @ ''/'' @ b)"

definition basename :: "string \<Rightarrow> string" where
  \<comment> \<open>\<open>os.path.basename(p)\<close>: what follows the last slash\<close>
  "basename p = rev (takeWhile (\<lambda>c. c \<noteq> CHR ''/'') (rev p))"

definition splitext_root :: "string \<Rightarrow> string" where
  \<comment> \<open>\<open>os.path.splitext(p)[0]\<close> for a name without slashes: cut at the last dot, unless only
      dots stand before it\<close>
  "splitext_root p =
     (let ext = takeWhile (\<lambda>c. c \<noteq> CHR ''.'') (rev p);
          root = rev (drop (length ext + 1) (rev p))
      in if length ext < length p \<and> filter (\<lambda>c. c \<noteq> CHR ''.'') root \<noteq> [] then root else p)"

subsection \<open>Collaborators and records\<close>

text \<open>
  What the media tools and the file system answer is a parameter of the model. A clip
  record is a selected segment to which the stages add \<open>raw_clip_path\<close> and
  \<open>final_clip_path\<close>. The file name of a raw clip is built with float formatting
  (\<open>segment_{i+1}_{text}_{start:.0f}s-{end:.0f}s.mp4\<close>) and is a parameter as well, given
  the index and the segment. \<open>captioning\<close> stands for the call of \<open>add_captions_to_video\<close>
  together with the test that follows it, whether the captioned file exists.
\<close>

datatype cut_outcome = CutTrue | CutFalse | CutRaised

datatype caption_outcome = OutputExists | OutputMissing | CaptionRaised

record collaborators =
  segment_base_name :: "nat \<Rightarrow> segment \<Rightarrow> string"
  path_exists :: "string \<Rightarrow> bool"
  run_ffmpeg :: "string \<Rightarrow> real \<Rightarrow> real \<Rightarrow> string \<Rightarrow> cut_outcome"
  write_cropped :: "string \<Rightarrow> string \<Rightarrow> string \<Rightarrow> bool"
  captioning :: "string \<Rightarrow> segment list \<Rightarrow> string \<Rightarrow> caption_outcome"

record args =
  output_dir :: string
  output_aspect_ratio :: string
  skip_captioning :: bool

record clip_record = segment +
  raw_clip_path :: "string option"
  final_clip_path :: "string option"

definition extract_video_segments ::
  "collaborators \<Rightarrow> string \<Rightarrow> real \<Rightarrow> real \<Rightarrow> string \<Rightarrow> cut_outcome" where
  "extract_video_segments E video_file_path start_seconds end_seconds output_file_path =
     (if \<not> path_exists E video_file_path then CutFalse
      else if end_seconds - start_seconds \<le> 0 then CutFalse
      else run_ffmpeg E video_file_path start_seconds end_seconds output_file_path)"

definition aspect_ratio_ok :: "string \<Rightarrow> bool" where
  \<comment> \<open>the first \<open>try\<close> of \<open>convert_video_aspect_ratio\<close>: two parts, both integers above zero\<close>
  "aspect_ratio_ok target =
     (case split_on CHR '':'' target of
        [w, h] \<Rightarrow>
          (case py_int w of
             Inl e \<Rightarrow> False
           | Inr ar_w \<Rightarrow>
               (case py_int h of
                  Inl e \<Rightarrow> False
                | Inr ar_h \<Rightarrow> \<not> (ar_w \<le> 0 \<or> ar_h \<le> 0)))
      | _ \<Rightarrow> False)"

definition convert_video_aspect_ratio ::
  "collaborators \<Rightarrow> string \<Rightarrow> string \<Rightarrow> string \<Rightarrow> string option" where
  "convert_video_aspect_ratio E input_file_path output_file_path target_aspect_ratio_str =
     (if \<not> aspect_ratio_ok target_aspect_ratio_str then None
      else if \<not> path_exists E input_file_path then None
      else if write_cropped E input_file_path output_file_path target_aspect_ratio_str
           then Some output_file_path
           else None)"

definition raw_clips_dir :: "args \<Rightarrow> string" where
  "raw_clips_dir A = path_join (output_dir A) ''raw_clips''"

definition final_clips_dir :: "args \<Rightarrow> string" where
  "final_clips_dir A = path_join (output_dir A) ''final_clips''"

definition extracted_segment_output_path :: "collaborators \<Rightarrow> args \<Rightarrow> nat \<Rightarrow> segment \<Rightarrow> string" where
  "extracted_segment_output_path E A i segment_info =
     path_join (raw_clips_dir A) (segment_base_name E i segment_info)"

definition formatted_aspect_path :: "args \<Rightarrow> string \<Rightarrow> string" where
  "formatted_aspect_path A raw_clip_input_path =
     path_join (final_clips_dir A) (splitext_root (basename raw_clip_input_path) @ ''_formatted.mp4'')"

definition captioned_output_path :: "args \<Rightarrow> string \<Rightarrow> string" where
  "captioned_output_path A raw_clip_input_path =
     path_join (final_clips_dir A) (splitext_root (basename raw_clip_input_path) @ ''_captioned.mp4'')"

subsection \<open>Stage 5: cutting the segments\<close>

definition extracted_record :: "collaborators \<Rightarrow> args \<Rightarrow> nat \<Rightarrow> segment \<Rightarrow> clip_record" where
  \<comment> \<open>\<open>segment_info\<close> after \<open>segment_info['raw_clip_path'] = extracted_segment_output_path\<close>\<close>
  "extracted_record E A i segment_info =
     \<lparr>seg_text = seg_text segment_info, seg_start = seg_start segment_info,
      seg_end = seg_end segment_info,
      raw_clip_path = Some (extracted_segment_output_path E A i segment_info),
      final_clip_path = None\<rparr>"

fun stage5 :: "collaborators \<Rightarrow> args \<Rightarrow> string \<Rightarrow> nat \<Rightarrow> segment list \<Rightarrow> clip_record list" where
  \<comment> \<open>the loop over \<open>enumerate(selected_segments)\<close>; a cut that returns \<open>False\<close> or raises
      leaves the segment out of \<open>extracted_clips_info\<close>\<close>
  "stage5 E A video_file_path i [] = []"
| "stage5 E A video_file_path i (segment_info # rest) =
     (case extract_video_segments E video_file_path (seg_start segment_info) (seg_end segment_info)
             (extracted_segment_output_path E A i segment_info) of
        CutTrue \<Rightarrow> extracted_record E A i segment_info # stage5 E A video_file_path (Suc i) rest
      | CutFalse \<Rightarrow> stage5 E A video_file_path (Suc i) rest
      | CutRaised \<Rightarrow> stage5 E A video_file_path (Suc i) rest)"

subsection \<open>Stage 6: formatting and captioning\<close>

definition process_segment ::
  "collaborators \<Rightarrow> args \<Rightarrow> 'a segment_scheme list \<Rightarrow> clip_record \<Rightarrow> error + clip_record option" where
  \<comment> \<open>one pass of the stage-6 loop body: \<open>Inr None\<close> is \<open>continue\<close>, \<open>Inr (Some r)\<close> appends
      \<open>r\<close> to \<open>processed_clips_info\<close>, \<open>Inl e\<close> is an exception that leaves the loop\<close>
  "process_segment E A segments segment_data =
     (case raw_clip_path segment_data of
        None \<Rightarrow> Inr None
      | Some raw_clip_input_path \<Rightarrow>
          if raw_clip_input_path = [] \<or> \<not> path_exists E raw_clip_input_path then Inr None
          else
            (case convert_video_aspect_ratio E raw_clip_input_path
                    (formatted_aspect_path A raw_clip_input_path) (output_aspect_ratio A) of
               None \<Rightarrow> Inr None
             | Some converted_path \<Rightarrow>
                 if converted_path = [] then Inr None
                 else if skip_captioning A
                 then Inr (Some (segment_data\<lparr>final_clip_path := Some converted_path\<rparr>))
                 else if adjusted_transcription_segments segment_data segments = []
                 then Inr (Some (segment_data\<lparr>final_clip_path := Some converted_path\<rparr>))
                 else
                   (case captioning E converted_path
                           (adjusted_transcription_segments segment_data segments)
                           (captioned_output_path A raw_clip_input_path) of
                      CaptionRaised \<Rightarrow> Inl CollaboratorError
                    | OutputExists \<Rightarrow>
                        Inr (Some (segment_data
                          \<lparr>final_clip_path := Some (captioned_output_path A raw_clip_input_path)\<rparr>))
                    | OutputMissing \<Rightarrow>
                        Inr (Some (segment_data\<lparr>final_clip_path := Some converted_path\<rparr>)))))"

fun stage6 ::
  "collaborators \<Rightarrow> args \<Rightarrow> 'a segment_scheme list \<Rightarrow> clip_record list \<Rightarrow> error + clip_record list" where
  "stage6 E A segments [] = Inr []"
| "stage6 E A segments (segment_data # rest) =
     (case process_segment E A segments segment_data of
        Inl e \<Rightarrow> Inl e
      | Inr None \<Rightarrow> stage6 E A segments rest
      | Inr (Some r) \<Rightarrow>
          (case stage6 E A segments rest of
             Inl e \<Rightarrow> Inl e
           | Inr processed \<Rightarrow> Inr (r # processed)))"

definition final_segment_paths :: "clip_record list \<Rightarrow> string list" where
  \<comment> \<open>\<open>[s['final_clip_path'] for s in selected_segments if 'final_clip_path' in s and s['final_clip_path']]\<close>\<close>
  "final_segment_paths processed =
     concat (map (\<lambda>s. case final_clip_path s of
                          None \<Rightarrow> []
                        | Some p \<Rightarrow> if p = [] then [] else [p]) processed)"

definition segment_stages ::
  "collaborators \<Rightarrow> args \<Rightarrow> string \<Rightarrow> 'a segment_scheme list \<Rightarrow> segment list \<Rightarrow> error + string list" where
  \<comment> \<open>stages 5 and 6 of \<open>main_workflow\<close>, from the selected segments to \<open>final_segment_paths\<close>\<close>
  "segment_stages E A video_file_path segments selected_segments =
     (case stage6 E A segments (stage5 E A video_file_path 0 selected_segments) of
        Inl e \<Rightarrow> Inl e
      | Inr processed \<Rightarrow> Inr (final_segment_paths processed))"

definition final_artifact_of :: "collaborators \<Rightarrow> args \<Rightarrow> nat \<times> segment \<Rightarrow> string \<Rightarrow> bool" where
  \<comment> \<open>\<open>p\<close> is a final artifact of the record of selected segment number \<open>i\<close>: its formatted
      clip or its captioned clip\<close>
  "final_artifact_of E A k p =
     (p = formatted_aspect_path A (extracted_segment_output_path E A (fst k) (snd k))
      \<or> p = captioned_output_path A (extracted_segment_output_path E A (fst k) (snd k)))"

section \<open>Verification\<close>

subsection \<open>Clock strings\<close>

lemma split_on_no_sep: "c \<notin> set s \<Longrightarrow> split_on c s = [s]"
  by (induction s) auto

lemma split_on_append: "c \<notin> set a \<Longrightarrow> split_on c (a @ c # b) = a # split_on c b"
  by (induction a) auto

lemma is_digit_digit_char: "d < 10 \<Longrightarrow> is_digit (digit_char d)"
  by (simp add: is_digit_def digit_char_def)

lemma digit_val_digit_char: "d < 10 \<Longrightarrow> digit_val (digit_char d) = d"
  by (simp add: digit_val_def digit_char_def)

lemma digits_all: "\<forall>c\<in>set (digits n). is_digit c"
proof (induction n rule: digits.induct)
  case (1 n)
  show ?case
    by (subst digits.simps) (use 1 in \<open>auto simp: is_digit_digit_char\<close>)
qed

lemma digits_ne: "digits n \<noteq> []"
  by (subst digits.simps) simp

lemma is_digit_not_special:
  "is_digit c \<Longrightarrow> \<not> is_int_space c \<and> c \<noteq> CHR ''-'' \<and> c \<noteq> CHR ''+'' \<and> c \<noteq> CHR '':'' \<and> c \<noteq> CHR ''_''"
  by (auto simp: is_digit_def is_int_space_def)

lemma is_digit_zero: "is_digit CHR ''0''" "digit_val CHR ''0'' = 0"
  by (simp_all add: is_digit_def digit_val_def)

lemma literal_ok_digits: "\<forall>c\<in>set s. is_digit c \<Longrightarrow> literal_ok p s = (p \<or> s \<noteq> [])"
  by (induction s arbitrary: p) auto

lemma int_strip_digits: "\<forall>c\<in>set s. is_digit c \<Longrightarrow> int_strip s = s"
proof (cases s rule: rev_cases)
  case Nil
  then show ?thesis by (simp add: int_strip_def)
next
  case (snoc ys y)
  assume a: "\<forall>c\<in>set s. is_digit c"
  have 1: "dropWhile is_int_space s = s"
    using a by (cases s) (auto simp: is_digit_not_special)
  have 2: "dropWhile is_int_space (rev s) = rev s"
    using a snoc by (auto simp: is_digit_not_special)
  show ?thesis by (simp add: int_strip_def 1 2)
qed

lemma py_int_digit_string:
  assumes "s \<noteq> []" and "\<forall>c\<in>set s. is_digit c"
  shows "py_int s = Inr (int (literal_value s))"
proof -
  obtain c cs where s: "s = c # cs" using assms(1) by (cases s) auto
  have "is_digit c" using assms(2) s by simp
  then have "c \<noteq> CHR ''-''" "c \<noteq> CHR ''+''" by (simp_all add: is_digit_not_special)
  moreover have "literal_ok False s" using assms by (simp add: literal_ok_digits)
  ultimately show ?thesis
    using int_strip_digits [OF assms(2)] s by (simp add: py_int_def)
qed

lemma literal_value_snoc:
  "\<forall>c\<in>set s. is_digit c \<Longrightarrow> is_digit d \<Longrightarrow> literal_value (s @ [d]) = 10 * literal_value s + digit_val d"
  by (simp add: literal_value_def)

lemma literal_value_digits: "literal_value (digits n) = n"
proof (induction n rule: digits.induct)
  case (1 n)
  show ?case
  proof (cases "n < 10")
    case True
    then show ?thesis
      by (subst digits.simps) (simp add: literal_value_def is_digit_digit_char digit_val_digit_char)
  next
    case False
    then have "literal_value (digits n) = 10 * literal_value (digits (n div 10)) + digit_val (digit_char (n mod 10))"
      by (subst digits.simps) (simp add: literal_value_snoc digits_all is_digit_digit_char)
    then show ?thesis using 1 False by (simp add: digit_val_digit_char)
  qed
qed

lemma literal_value_zeros: "literal_value (replicate k CHR ''0'' @ s) = literal_value s"
proof -
  have "foldl (\<lambda>a c. 10 * a + digit_val c) 0 (replicate k CHR ''0'') = 0"
    by (induction k) (simp_all add: is_digit_zero)
  then show ?thesis
    by (simp add: literal_value_def is_digit_zero)
qed

lemma py_str_nonneg:
  assumes "0 \<le> i"
  shows "py_int (py_str i) = Inr i" and "CHR '':'' \<notin> set (py_str i)"
proof -
  have eq: "py_str i = digits (nat i)" using assms by (simp add: py_str_def)
  show "py_int (py_str i) = Inr i"
    using assms by (simp add: eq py_int_digit_string digits_ne digits_all literal_value_digits)
  show "CHR '':'' \<notin> set (py_str i)"
    using digits_all [of "nat i"] is_digit_not_special [of "CHR '':''"] by (auto simp: eq)
qed

lemma format_02d_nonneg:
  assumes "0 \<le> i"
  shows "py_int (format_02d i) = Inr i" and "CHR '':'' \<notin> set (format_02d i)"
proof -
  define k where "k = 2 - length (digits (nat i))"
  have eq: "format_02d i = replicate k CHR ''0'' @ digits (nat i)"
    using assms by (simp add: format_02d_def k_def)
  have all: "\<forall>c\<in>set (format_02d i). is_digit c"
    using digits_all [of "nat i"] by (auto simp: eq is_digit_zero)
  have ne: "format_02d i \<noteq> []" by (simp add: eq digits_ne)
  show "py_int (format_02d i) = Inr i"
    using assms py_int_digit_string [OF ne all]
    by (simp add: eq literal_value_zeros literal_value_digits)
  show "CHR '':'' \<notin> set (format_02d i)"
    using all is_digit_not_special [of "CHR '':''"] by auto
qed

lemma convert_three:
  assumes "CHR '':'' \<notin> set a" "CHR '':'' \<notin> set b" "CHR '':'' \<notin> set c"
    and "py_int a = Inr h" "py_int b = Inr m" "py_int c = Inr s"
  shows "convert_time_to_seconds (a @ '':'' @ b @ '':'' @ c) = Inr (h * 3600 + m * 60 + s)"
proof -
  have "split_on CHR '':'' (a @ '':'' @ b @ '':'' @ c) = [a, b, c]"
    using assms(1-3) by (simp add: split_on_append split_on_no_sep)
  then show ?thesis using assms(4-6) by (simp add: convert_time_to_seconds_def)
qed

lemma convert_two:
  assumes "CHR '':'' \<notin> set b" "CHR '':'' \<notin> set c"
    and "py_int b = Inr m" "py_int c = Inr s"
  shows "convert_time_to_seconds (b @ '':'' @ c) = Inr (m * 60 + s)"
proof -
  have "split_on CHR '':'' (b @ '':'' @ c) = [b, c]"
    using assms(1-2) by (simp add: split_on_append split_on_no_sep)
  then show ?thesis using assms(3-4) by (simp add: convert_time_to_seconds_def)
qed

lemma roundtrip_nonneg:
  assumes "0 \<le> s"
  shows "convert_time_to_seconds (format_time s) = Inr s"
proof -
  define h where "h = s div 60 div 60"
  define m where "m = s div 60 mod 60"
  define r where "r = s mod 60"
  have nn: "0 \<le> h" "0 \<le> m" "0 \<le> r"
    using assms by (simp_all add: h_def m_def r_def pos_imp_zdiv_nonneg_iff)
  have sum: "h * 3600 + m * 60 + r = s"
    unfolding h_def m_def r_def by presburger
  show ?thesis
  proof (cases "0 < h")
    case True
    then have "format_time s = py_str h @ '':'' @ format_02d m @ '':'' @ format_02d r"
      by (simp add: format_time_def Let_def h_def m_def r_def)
    then show ?thesis
      using convert_three [OF py_str_nonneg(2) [OF nn(1)] format_02d_nonneg(2) [OF nn(2)]
          format_02d_nonneg(2) [OF nn(3)] py_str_nonneg(1) [OF nn(1)]
          format_02d_nonneg(1) [OF nn(2)] format_02d_nonneg(1) [OF nn(3)]] sum
      by simp
  next
    case False
    then have h0: "h = 0" using nn by simp
    have "format_time s = py_str m @ '':'' @ format_02d r"
      using False by (simp add: format_time_def Let_def h_def m_def r_def)
    then show ?thesis
      using convert_two [OF py_str_nonneg(2) [OF nn(2)] format_02d_nonneg(2) [OF nn(3)]
          py_str_nonneg(1) [OF nn(2)] format_02d_nonneg(1) [OF nn(3)]] sum h0
      by simp
  qed
qed

text \<open>
  Claim C7: for every integer number of seconds \<open>s\<close> with \<open>0 \<le> s < 86400\<close>, parsing the
  clock string that \<open>format_time\<close> renders gives \<open>s\<close> back.
\<close>

theorem format_time_roundtrip:
  "0 \<le> s \<Longrightarrow> s < 86400 \<Longrightarrow> convert_time_to_seconds (format_time s) = Inr s"
  by (rule roundtrip_nonneg)

theorem format_time_roundtrip_witness:
  "(0::int) \<le> 3725 \<and> (3725::int) < 86400 \<and> format_time 3725 = ''1:02:05''
     \<and> convert_time_to_seconds ''1:02:05'' = Inr 3725"
proof -
  have f: "format_time 3725 = ''1:02:05''" by code_simp
  show ?thesis using format_time_roundtrip [of 3725] f by simp
qed

text \<open>
  Claim C10: a string that \<open>split(':')\<close> cuts into neither two nor three parts makes
  \<open>convert_time_to_seconds\<close> raise \<open>ValueError\<close>; it never returns a number.
\<close>

theorem convert_time_wrong_part_count:
  "length (split_on CHR '':'' time_str) \<noteq> 2 \<Longrightarrow> length (split_on CHR '':'' time_str) \<noteq> 3
     \<Longrightarrow> convert_time_to_seconds time_str = Inl ValueError"
  by (simp add: convert_time_to_seconds_def)

theorem convert_time_wrong_part_count_witness:
  "length (split_on CHR '':'' ''1:2:3:4'') = 4 \<and> convert_time_to_seconds ''1:2:3:4'' = Inl ValueError"
proof -
  have l: "length (split_on CHR '':'' ''1:2:3:4'') = 4" by simp
  show ?thesis using convert_time_wrong_part_count [of "''1:2:3:4''"] l by simp
qed

subsection \<open>Slices and stable sorts\<close>

lemma py_slice_to_take: "\<exists>k. py_slice_to n xs = take k xs"
  by (auto simp: py_slice_to_def)

lemma set_py_slice_to: "set (py_slice_to n xs) \<subseteq> set xs"
  by (auto simp: py_slice_to_def dest: in_set_takeD)

lemma length_py_slice_to: "0 \<le> n \<Longrightarrow> int (length (py_slice_to n xs)) \<le> n"
  by (simp add: py_slice_to_def)

lemma py_slice_to_all: "0 \<le> n \<Longrightarrow> int (length xs) \<le> n \<Longrightarrow> py_slice_to n xs = xs"
  by (simp add: py_slice_to_def)

lemma py_slice_to_zero: "py_slice_to 0 xs = []"
  by (simp add: py_slice_to_def)

lemma prefix_py_slice_to: "prefix (py_slice_to n xs) xs"
  by (simp add: py_slice_to_def take_is_prefix)

lemma set_sort_key_reverse: "set (sort_key_reverse f xs) = set xs"
  by (simp add: sort_key_reverse_def)

lemma length_sort_key_reverse: "length (sort_key_reverse f xs) = length xs"
  by (simp add: sort_key_reverse_def)

lemma mset_sort_key_reverse: "mset (sort_key_reverse f xs) = mset xs"
  by (simp add: sort_key_reverse_def)

lemma sort_key_reverse_stable:
  "filter (\<lambda>y. f y = k) (sort_key_reverse f xs) = filter (\<lambda>y. f y = k) xs"
proof -
  have "filter (\<lambda>y. f y = k) (sort_key_reverse f xs) = rev (filter (\<lambda>y. f y = k) (sort_key f (rev xs)))"
    by (simp add: sort_key_reverse_def rev_filter)
  also have "\<dots> = rev (filter (\<lambda>y. f y = k) (rev xs))"
    by (simp only: sort_key_stable)
  finally show ?thesis by (simp add: rev_filter)
qed

lemma sort_key_reverse_descending: "sorted_wrt (\<lambda>a b. b \<le> a) (map f (sort_key_reverse f xs))"
proof -
  have "sorted (map f (sort_key f (rev xs)))" by simp
  then have "sorted_wrt (\<lambda>a b. b \<le> a) (rev (map f (sort_key f (rev xs))))"
    by (simp add: sorted_wrt_rev)
  then show ?thesis by (simp add: sort_key_reverse_def rev_map)
qed

lemma filter_sort_key_reverse:
  "filter P (sort_key_reverse f xs) = sort_key_reverse f (filter P xs)"
  by (simp add: sort_key_reverse_def rev_filter [symmetric] filter_sort)

lemma sort_key_reverse_id:
  assumes "sorted_wrt (\<lambda>a b. b \<le> a) (map f xs)"
  shows "sort_key_reverse f xs = xs"
proof -
  have "sorted (rev (map f xs))"
    using assms by (simp add: sorted_wrt_rev)
  then have "sort_key f (rev xs) = rev xs"
    by (simp add: sort_key_id_if_sorted rev_map)
  then show ?thesis by (simp add: sort_key_reverse_def)
qed

lemma descending_filter_take:
  assumes "sorted_wrt (\<lambda>a b. b \<le> a) (map f xs)"
  shows "sorted_wrt (\<lambda>a b. b \<le> a) (map f (filter P (take k xs)))"
proof -
  have "sorted_wrt (\<lambda>a b. f b \<le> f a) xs"
    using assms by (simp add: sorted_wrt_map)
  then have "sorted_wrt (\<lambda>a b. f b \<le> f a) (take k xs)"
    by (rule sorted_wrt_take)
  then have "sorted_wrt (\<lambda>a b. f b \<le> f a) (filter P (take k xs))"
    by (rule sorted_wrt_filter)
  then show ?thesis by (simp add: sorted_wrt_map)
qed

lemma reselect_id:
  fixes st :: "'a \<Rightarrow> 'k::linorder" and sc :: "'a \<Rightarrow> 'j::linorder"
  assumes n: "0 \<le> n"
    and S: "S = sort_key st (py_slice_to n (sort_key_reverse sc V))"
  shows "sort_key st (py_slice_to n (sort_key_reverse sc S)) = S"
proof -
  obtain j where T: "py_slice_to n (sort_key_reverse sc V) = take j (sort_key_reverse sc V)"
    using py_slice_to_take by blast
  have len: "int (length (sort_key_reverse sc S)) \<le> n"
    using length_py_slice_to [OF n, of "sort_key_reverse sc V"]
    by (simp add: S length_sort_key_reverse)
  have all: "py_slice_to n (sort_key_reverse sc S) = sort_key_reverse sc S"
    by (rule py_slice_to_all [OF n len])
  have "sort_key st (sort_key_reverse sc S) = S"
  proof (rule properties_for_sort_key)
    show "mset S = mset (sort_key_reverse sc S)"
      by (simp add: mset_sort_key_reverse)
    show "sorted (map st S)"
      by (simp add: S)
    show "filter (\<lambda>x. st k = st x) S = filter (\<lambda>x. st k = st x) (sort_key_reverse sc S)" for k
    proof -
      have flip: "(\<lambda>x. st k = st x) = (\<lambda>x. st x = st k)" by auto
      have "filter (\<lambda>x. st x = st k) S = filter (\<lambda>x. st x = st k) (take j (sort_key_reverse sc V))"
        by (simp only: S T sort_key_stable)
      moreover have "sorted_wrt (\<lambda>a b. b \<le> a)
          (map sc (filter (\<lambda>x. st x = st k) (take j (sort_key_reverse sc V))))"
        by (rule descending_filter_take [OF sort_key_reverse_descending])
      ultimately have "sort_key_reverse sc (filter (\<lambda>x. st x = st k) S) = filter (\<lambda>x. st x = st k) S"
        by (simp add: sort_key_reverse_id)
      then show ?thesis
        by (simp add: flip filter_sort_key_reverse)
    qed
  qed
  then show ?thesis by (simp add: all)
qed

subsection \<open>Candidates\<close>

lemma strip_idem: "strip (strip s) = strip s"
proof -
  define t where "t = dropWhile is_space s"
  define u where "u = dropWhile is_space (rev t)"
  have su: "strip s = rev u" by (simp add: strip_def t_def u_def)
  have u_hd: "u = [] \<or> \<not> is_space (hd u)"
    unfolding u_def using hd_dropWhile by blast
  have t_hd: "t = [] \<or> \<not> is_space (hd t)"
    unfolding t_def using hd_dropWhile by blast
  have "dropWhile is_space (rev u) = rev u"
  proof (cases "u = []")
    case True
    then show ?thesis by simp
  next
    case False
    obtain ys where ys: "rev t = ys @ u"
      unfolding u_def by (metis takeWhile_dropWhile_id)
    have "t \<noteq> []" using False ys by auto
    have "last u = last (rev t)" using False ys by simp
    also have "\<dots> = hd t" using \<open>t \<noteq> []\<close> by (simp add: last_rev)
    finally have "\<not> is_space (hd (rev u))"
      using t_hd \<open>t \<noteq> []\<close> False by (simp add: hd_rev)
    then show ?thesis by (simp add: dropWhile_eq_self_iff)
  qed
  moreover have "dropWhile is_space u = u"
    using u_hd by (simp add: dropWhile_eq_self_iff)
  ultimately have "strip (rev u) = rev u"
    unfolding strip_def by simp
  then show ?thesis by (simp only: su)
qed

lemma basic_valid_segments_ok:
  assumes "c \<in> set (basic_valid_segments m segs)"
  shows "m \<le> seg_end c - seg_start c" and "strip (seg_text c) = seg_text c" and "seg_text c \<noteq> []"
    and "b_duration c = seg_end c - seg_start c" and "text_length c = length (seg_text c)"
  using assms by (induction segs) (auto simp: Let_def strip_idem split: if_splits)

lemma basic_valid_segments_again:
  assumes "set cs \<subseteq> set (basic_valid_segments m segs)"
    and "\<forall>c\<in>set cs. m' \<le> seg_end c - seg_start c"
  shows "basic_valid_segments m' (map project cs) = cs"
  using assms
proof (induction cs)
  case Nil
  then show ?case by simp
next
  case (Cons c cs)
  have c: "c \<in> set (basic_valid_segments m segs)" using Cons.prems(1) by simp
  have rest: "basic_valid_segments m' (map project cs) = cs"
    using Cons by simp
  have "basic_valid_segments m' (project c # xs) = c # basic_valid_segments m' xs" for xs
    using Cons.prems(2) basic_valid_segments_ok(2-5) [OF c]
    by (cases c) (simp add: project_def Let_def)
  then show ?case
    by (simp add: rest)
qed

lemma candidate_segments_ok:
  assumes "c \<in> set (candidate_segments nlp m segs)"
  shows "m \<le> seg_end c - seg_start c" and "strip (seg_text c) = seg_text c" and "seg_text c \<noteq> []"
    and "duration c = seg_end c - seg_start c" and "original_score c = pos_score (nlp (seg_text c))"
proof -
  have "c \<in> set (scored_segments nlp segs) \<Longrightarrow>
      strip (seg_text c) = seg_text c \<and> seg_text c \<noteq> [] \<and> duration c = seg_end c - seg_start c
      \<and> original_score c = pos_score (nlp (seg_text c))"
    by (induction segs) (auto simp: Let_def strip_idem split: if_splits)
  then show "m \<le> seg_end c - seg_start c" and "strip (seg_text c) = seg_text c" and "seg_text c \<noteq> []"
    and "duration c = seg_end c - seg_start c" and "original_score c = pos_score (nlp (seg_text c))"
    using assms by (auto simp: candidate_segments_def)
qed

lemma candidate_segments_again:
  assumes "set cs \<subseteq> set (candidate_segments nlp m segs)"
    and "\<forall>c\<in>set cs. m' \<le> seg_end c - seg_start c"
  shows "candidate_segments nlp m' (map project cs) = cs"
  using assms
proof (induction cs)
  case Nil
  then show ?case by (simp add: candidate_segments_def)
next
  case (Cons c cs)
  have c: "c \<in> set (candidate_segments nlp m segs)" using Cons.prems(1) by simp
  have rest: "candidate_segments nlp m' (map project cs) = cs"
    using Cons by simp
  have "candidate_segments nlp m' (project c # xs) = c # candidate_segments nlp m' xs" for xs
    using Cons.prems(2) candidate_segments_ok(2-5) [OF c]
    by (cases c) (simp add: candidate_segments_def project_def Let_def)
  then show ?case
    by (simp add: rest)
qed

subsection \<open>The shared selection policy\<close>

lemma map_start_project: "map seg_start (map project cs) = map seg_start cs"
  by (simp add: project_def)

lemma selection_props:
  fixes R :: "'a segment_scheme list"
  assumes "\<forall>c\<in>set R. m \<le> seg_end c - seg_start c"
  shows "0 \<le> n \<longrightarrow> int (length (map project (sort_key seg_start (py_slice_to n R)))) \<le> n"
    and "\<forall>s\<in>set (map project (sort_key seg_start (py_slice_to n R))). m \<le> seg_end s - seg_start s"
    and "sorted (map seg_start (map project (sort_key seg_start (py_slice_to n R))))"
proof -
  show "0 \<le> n \<longrightarrow> int (length (map project (sort_key seg_start (py_slice_to n R)))) \<le> n"
    by (simp add: length_py_slice_to)
  show "\<forall>s\<in>set (map project (sort_key seg_start (py_slice_to n R))). m \<le> seg_end s - seg_start s"
    using assms(1) set_py_slice_to [of n R] by (auto simp: project_def)
  show "sorted (map seg_start (map project (sort_key seg_start (py_slice_to n R))))"
    by (simp only: map_start_project sorted_sort_key)
qed

lemma basic_selection_props:
  "0 \<le> n \<longrightarrow> int (length (find_important_segments_basic segs n m)) \<le> n"
  "\<forall>s\<in>set (find_important_segments_basic segs n m). m \<le> seg_end s - seg_start s"
  "sorted (map seg_start (find_important_segments_basic segs n m))"
proof -
  have R: "\<forall>c\<in>set (basic_ranked m segs). m \<le> seg_end c - seg_start c"
    by (simp add: basic_ranked_def set_sort_key_reverse basic_valid_segments_ok(1))
  show "0 \<le> n \<longrightarrow> int (length (find_important_segments_basic segs n m)) \<le> n"
    using selection_props(1) [OF R, of n] by (simp add: find_important_segments_basic_def)
  show "\<forall>s\<in>set (find_important_segments_basic segs n m). m \<le> seg_end s - seg_start s"
    using selection_props(2) [OF R, of n] by (simp add: find_important_segments_basic_def)
  show "sorted (map seg_start (find_important_segments_basic segs n m))"
    using selection_props(3) [OF R, of n] by (simp add: find_important_segments_basic_def)
qed

lemma spacy_selection_props:
  "0 \<le> n \<longrightarrow> int (length (find_important_segments (Loaded nlp) segs n m)) \<le> n"
  "\<forall>s\<in>set (find_important_segments (Loaded nlp) segs n m). m \<le> seg_end s - seg_start s"
  "sorted (map seg_start (find_important_segments (Loaded nlp) segs n m))"
proof -
  have R: "\<forall>c\<in>set (spacy_ranked nlp m segs). m \<le> seg_end c - seg_start c"
    by (simp add: spacy_ranked_def set_sort_key_reverse candidate_segments_ok(1))
  show "0 \<le> n \<longrightarrow> int (length (find_important_segments (Loaded nlp) segs n m)) \<le> n"
    using selection_props(1) [OF R, of n] by (simp add: find_important_segments_def)
  show "\<forall>s\<in>set (find_important_segments (Loaded nlp) segs n m). m \<le> seg_end s - seg_start s"
    using selection_props(2) [OF R, of n] by (simp add: find_important_segments_def)
  show "sorted (map seg_start (find_important_segments (Loaded nlp) segs n m))"
    using selection_props(3) [OF R, of n] by (simp add: find_important_segments_def)
qed

lemma basic_reselect:
  assumes n: "0 \<le> n"
    and m': "\<forall>s\<in>set (find_important_segments_basic segs n m). m' \<le> seg_end s - seg_start s"
  shows "find_important_segments_basic (find_important_segments_basic segs n m) n m'
           = find_important_segments_basic segs n m"
proof (cases "find_important_segments_basic segs n m = []")
  case True
  then show ?thesis by (simp add: find_important_segments_basic_def)
next
  case False
  define S where "S = sort_key seg_start (py_slice_to n (sort_key_reverse text_length (basic_valid_segments m segs)))"
  have L: "find_important_segments_basic segs n m = map project S"
    using False by (auto simp: find_important_segments_basic_def basic_ranked_def S_def split: if_splits)
  have sub: "set S \<subseteq> set (basic_valid_segments m segs)"
    using set_py_slice_to [of n "sort_key_reverse text_length (basic_valid_segments m segs)"]
    by (simp add: S_def set_sort_key_reverse)
  have dur: "\<forall>c\<in>set S. m' \<le> seg_end c - seg_start c"
    using m' by (simp add: L project_def)
  have again: "basic_valid_segments m' (map project S) = S"
    by (rule basic_valid_segments_again [OF sub dur])
  have S_ne: "map project S \<noteq> []" using False L by simp
  have re: "sort_key seg_start (py_slice_to n (sort_key_reverse text_length S)) = S"
    by (rule reselect_id [OF n S_def])
  have "find_important_segments_basic (map project S) n m'
      = map project (sort_key seg_start (py_slice_to n
          (sort_key_reverse text_length (basic_valid_segments m' (map project S)))))"
    using S_ne by (simp add: find_important_segments_basic_def basic_ranked_def)
  also have "\<dots> = map project S"
    by (simp only: again re)
  finally show ?thesis by (simp only: L)
qed

lemma spacy_reselect:
  assumes n: "0 \<le> n"
    and m': "\<forall>s\<in>set (find_important_segments (Loaded nlp) segs n m). m' \<le> seg_end s - seg_start s"
  shows "find_important_segments (Loaded nlp) (find_important_segments (Loaded nlp) segs n m) n m'
           = find_important_segments (Loaded nlp) segs n m"
proof (cases "find_important_segments (Loaded nlp) segs n m = []")
  case True
  then show ?thesis by (simp add: find_important_segments_def)
next
  case False
  define S where "S = sort_key seg_start (py_slice_to n (sort_key_reverse original_score (candidate_segments nlp m segs)))"
  have L: "find_important_segments (Loaded nlp) segs n m = map project S"
    using False by (auto simp: find_important_segments_def spacy_ranked_def S_def split: if_splits)
  have sub: "set S \<subseteq> set (candidate_segments nlp m segs)"
    using set_py_slice_to [of n "sort_key_reverse original_score (candidate_segments nlp m segs)"]
    by (simp add: S_def set_sort_key_reverse)
  have dur: "\<forall>c\<in>set S. m' \<le> seg_end c - seg_start c"
    using m' by (simp add: L project_def)
  have again: "candidate_segments nlp m' (map project S) = S"
    by (rule candidate_segments_again [OF sub dur])
  have S_ne: "S \<noteq> []" "map project S \<noteq> []" using False L by simp_all
  have re: "sort_key seg_start (py_slice_to n (sort_key_reverse original_score S)) = S"
    by (rule reselect_id [OF n S_def])
  have "find_important_segments (Loaded nlp) (map project S) n m'
      = map project (sort_key seg_start (py_slice_to n
          (sort_key_reverse original_score (candidate_segments nlp m' (map project S)))))"
    using S_ne by (simp add: find_important_segments_def spacy_ranked_def again)
  also have "\<dots> = map project S"
    by (simp only: again re)
  finally show ?thesis by (simp only: L)
qed

lemmas eval_select = find_important_segments_def find_important_segments_basic_def basic_ranked_def
  spacy_ranked_def candidate_segments_def sort_key_reverse_def py_slice_to_def strip_def
  is_space_def project_def pos_score_def Let_def

text \<open>
  Claim C1, as the code has it. In both modes (the spaCy tagger loaded, or either failure to
  load it, which falls back to text length) every returned segment lasts at least
  \<open>min_segment_duration\<close> and the result is sorted by start time; it has at most
  \<open>num_segments\<close> elements whenever \<open>num_segments\<close> is not negative. For a negative
  \<open>num_segments\<close> the slice \<open>[:num_segments]\<close> drops that many candidates from the end of
  the ranking and keeps the rest, so no bound by \<open>num_segments\<close> can hold.
\<close>

theorem selection_bounds:
  "(0 \<le> num_segments \<longrightarrow>
      int (length (find_important_segments loaded segs num_segments min_dur)) \<le> num_segments)
   \<and> (\<forall>s\<in>set (find_important_segments loaded segs num_segments min_dur).
         min_dur \<le> seg_end s - seg_start s)
   \<and> sorted (map seg_start (find_important_segments loaded segs num_segments min_dur))"
proof (cases loaded)
  case (Loaded nlp)
  then show ?thesis
    using spacy_selection_props [where n = num_segments and nlp = nlp and segs = segs and m = min_dur] by simp
next
  case RaisedOSError
  then show ?thesis
    using basic_selection_props [where n = num_segments and segs = segs and m = min_dur]
    by (simp add: find_important_segments_def)
next
  case RaisedOther
  then show ?thesis
    using basic_selection_props [where n = num_segments and segs = segs and m = min_dur]
    by (simp add: find_important_segments_def)
qed

theorem selection_bounds_witness:
  "(0::int) \<le> 2
   \<and> find_important_segments RaisedOSError
        [\<lparr>seg_text = ''Short'', seg_start = 0, seg_end = 1\<rparr>,
         \<lparr>seg_text = ''Medium length segment'', seg_start = 2, seg_end = 5\<rparr>,
         \<lparr>seg_text = ''This is a very long segment indeed'', seg_start = 6, seg_end = 12\<rparr>] 2 3
       = [\<lparr>seg_text = ''Medium length segment'', seg_start = 2, seg_end = 5\<rparr>,
          \<lparr>seg_text = ''This is a very long segment indeed'', seg_start = 6, seg_end = 12\<rparr>]
   \<and> int (length (find_important_segments RaisedOSError
        [\<lparr>seg_text = ''Short'', seg_start = 0, seg_end = 1\<rparr>,
         \<lparr>seg_text = ''Medium length segment'', seg_start = 2, seg_end = 5\<rparr>,
         \<lparr>seg_text = ''This is a very long segment indeed'', seg_start = 6, seg_end = 12\<rparr>] 2 3)) \<le> 2"
  using selection_bounds [where num_segments = 2 and loaded = RaisedOSError and min_dur = 3 and segs =
        "[\<lparr>seg_text = ''Short'', seg_start = 0, seg_end = 1\<rparr>,
         \<lparr>seg_text = ''Medium length segment'', seg_start = 2, seg_end = 5\<rparr>,
         \<lparr>seg_text = ''This is a very long segment indeed'', seg_start = 6, seg_end = 12\<rparr>]"]
  by (simp add: eval_select)

text \<open>
  With \<open>num_segments = -1\<close> and two candidates of sufficient duration, one segment is
  returned, which is more than \<open>num_segments\<close>.
\<close>

theorem selection_negative_count_counterexample:
  "find_important_segments RaisedOSError
        [\<lparr>seg_text = ''Short'', seg_start = 0, seg_end = 1\<rparr>,
         \<lparr>seg_text = ''Medium length segment'', seg_start = 2, seg_end = 5\<rparr>,
         \<lparr>seg_text = ''This is a very long segment indeed'', seg_start = 6, seg_end = 12\<rparr>]
        (- 1) 3
     = [\<lparr>seg_text = ''This is a very long segment indeed'', seg_start = 6, seg_end = 12\<rparr>]
   \<and> \<not> int (length (find_important_segments RaisedOSError
        [\<lparr>seg_text = ''Short'', seg_start = 0, seg_end = 1\<rparr>,
         \<lparr>seg_text = ''Medium length segment'', seg_start = 2, seg_end = 5\<rparr>,
         \<lparr>seg_text = ''This is a very long segment indeed'', seg_start = 6, seg_end = 12\<rparr>]
        (- 1) 3)) \<le> - 1"
  by (simp add: eval_select)

text \<open>
  Claim C2, as the code has it: \<open>num_segments = 0\<close> gives the empty list, and so does an
  empty transcript, for every other argument and in both modes. The model returns a list in
  every case, so no error is raised. A negative \<open>num_segments\<close> does not give the empty list.
\<close>

theorem selection_empty_cases:
  "find_important_segments loaded (segs :: 'a segment_scheme list) 0 min_dur = []
   \<and> find_important_segments loaded ([] :: 'a segment_scheme list) num_segments min_dur = []"
  by (cases loaded)
    (simp_all add: find_important_segments_def find_important_segments_basic_def py_slice_to_zero)

theorem selection_empty_cases_witness:
  "find_important_segments (Loaded (\<lambda>t. [''NOUN'']))
      [\<lparr>seg_text = ''Segment A meets duration'', seg_start = 0, seg_end = 5\<rparr>] 0 3 = []
   \<and> find_important_segments RaisedOther ([] :: segment list) 1 1 = []"
  using selection_empty_cases [where loaded = "Loaded (\<lambda>t. [''NOUN''])" and min_dur = 3
      and num_segments = 0 and segs =
      "[\<lparr>seg_text = ''Segment A meets duration'', seg_start = 0, seg_end = 5\<rparr>]"]
    selection_empty_cases [where loaded = RaisedOther and min_dur = 1 and num_segments = 1
      and segs = "[] :: segment list"]
  by simp

text \<open>
  With \<open>num_segments = -1\<close> and two candidates, the slice keeps the better-ranked one.
\<close>

theorem selection_negative_not_empty_counterexample:
  "(- 1 :: int) \<le> 0
   \<and> find_important_segments (Loaded (\<lambda>t. [''NOUN'', ''VERB'']))
        [\<lparr>seg_text = ''Segment A meets duration'', seg_start = 0, seg_end = 5\<rparr>,
         \<lparr>seg_text = ''Segment C meets duration'', seg_start = 8, seg_end = 14\<rparr>] (- 1) 3
       = [\<lparr>seg_text = ''Segment A meets duration'', seg_start = 0, seg_end = 5\<rparr>]"
  by (simp add: eval_select)

text \<open>
  Claim C8, as the code has it: for \<open>num_segments \<ge> 0\<close>, selecting again from the selected
  list, with the same \<open>num_segments\<close>, the same mode and a minimum duration that every selected
  segment meets, returns the list unchanged.
\<close>

theorem reselect_idempotent:
  "0 \<le> num_segments \<Longrightarrow>
   \<forall>s\<in>set (find_important_segments loaded segs num_segments min_dur). min_dur' \<le> seg_end s - seg_start s \<Longrightarrow>
   find_important_segments loaded (find_important_segments loaded segs num_segments min_dur)
       num_segments min_dur'
     = find_important_segments loaded segs num_segments min_dur"
proof (cases loaded)
  case (Loaded nlp)
  assume "0 \<le> num_segments"
    "\<forall>s\<in>set (find_important_segments loaded segs num_segments min_dur). min_dur' \<le> seg_end s - seg_start s"
  then show ?thesis
    using spacy_reselect [where n = num_segments and nlp = nlp and segs = segs and m = min_dur and m' = min_dur'] Loaded
    by simp
next
  case RaisedOSError
  assume "0 \<le> num_segments"
    "\<forall>s\<in>set (find_important_segments loaded segs num_segments min_dur). min_dur' \<le> seg_end s - seg_start s"
  then show ?thesis
    using basic_reselect [where n = num_segments and segs = segs and m = min_dur and m' = min_dur'] RaisedOSError
    by (simp add: find_important_segments_def)
next
  case RaisedOther
  assume "0 \<le> num_segments"
    "\<forall>s\<in>set (find_important_segments loaded segs num_segments min_dur). min_dur' \<le> seg_end s - seg_start s"
  then show ?thesis
    using basic_reselect [where n = num_segments and segs = segs and m = min_dur and m' = min_dur'] RaisedOther
    by (simp add: find_important_segments_def)
qed

theorem reselect_idempotent_witness:
  "(0::int) \<le> 2
   \<and> find_important_segments RaisedOSError
        [\<lparr>seg_text = '' Short '', seg_start = 0, seg_end = 1\<rparr>,
         \<lparr>seg_text = '' Medium length segment'', seg_start = 2, seg_end = 5\<rparr>,
         \<lparr>seg_text = ''This is a very long segment indeed '', seg_start = 6, seg_end = 12\<rparr>] 2 3
       = [\<lparr>seg_text = ''Medium length segment'', seg_start = 2, seg_end = 5\<rparr>,
          \<lparr>seg_text = ''This is a very long segment indeed'', seg_start = 6, seg_end = 12\<rparr>]
   \<and> find_important_segments RaisedOSError
        [\<lparr>seg_text = ''Medium length segment'', seg_start = 2, seg_end = 5\<rparr>,
         \<lparr>seg_text = ''This is a very long segment indeed'', seg_start = 6, seg_end = 12\<rparr>] 2 2
       = [\<lparr>seg_text = ''Medium length segment'', seg_start = 2, seg_end = 5\<rparr>,
          \<lparr>seg_text = ''This is a very long segment indeed'', seg_start = 6, seg_end = 12\<rparr>]"
proof -
  have L: "find_important_segments RaisedOSError
        [\<lparr>seg_text = '' Short '', seg_start = 0, seg_end = 1\<rparr>,
         \<lparr>seg_text = '' Medium length segment'', seg_start = 2, seg_end = 5\<rparr>,
         \<lparr>seg_text = ''This is a very long segment indeed '', seg_start = 6, seg_end = 12\<rparr>] 2 3
       = [\<lparr>seg_text = ''Medium length segment'', seg_start = 2, seg_end = 5\<rparr>,
          \<lparr>seg_text = ''This is a very long segment indeed'', seg_start = 6, seg_end = 12\<rparr>]"
    by (simp add: eval_select)
  show ?thesis
    using reselect_idempotent [where num_segments = 2 and loaded = RaisedOSError and min_dur = 3
        and min_dur' = 2 and segs =
        "[\<lparr>seg_text = '' Short '', seg_start = 0, seg_end = 1\<rparr>,
         \<lparr>seg_text = '' Medium length segment'', seg_start = 2, seg_end = 5\<rparr>,
         \<lparr>seg_text = ''This is a very long segment indeed '', seg_start = 6, seg_end = 12\<rparr>]"]
    unfolding L by simp
qed

text \<open>
  With \<open>num_segments = -1\<close> the second selection drops one more segment.
\<close>

theorem reselect_negative_counterexample:
  "find_important_segments RaisedOSError
        [\<lparr>seg_text = ''Medium length segment'', seg_start = 2, seg_end = 5\<rparr>,
         \<lparr>seg_text = ''This is a very long segment indeed'', seg_start = 6, seg_end = 12\<rparr>] (- 1) 3
       = [\<lparr>seg_text = ''This is a very long segment indeed'', seg_start = 6, seg_end = 12\<rparr>]
   \<and> (3::real) \<le> 12 - 6
   \<and> find_important_segments RaisedOSError
        [\<lparr>seg_text = ''This is a very long segment indeed'', seg_start = 6, seg_end = 12\<rparr>] (- 1) 3
       \<noteq> [\<lparr>seg_text = ''This is a very long segment indeed'', seg_start = 6, seg_end = 12\<rparr>]"
  by (simp add: eval_select)

text \<open>
  Claim C9: in both modes the candidates with one and the same score \<open>k\<close> stand in the
  ranked list exactly as they stand in the candidate list, which is built in transcript order;
  those of them that survive the truncation are an initial part of that sequence.
\<close>

theorem ties_keep_input_order:
  "filter (\<lambda>c. text_length c = k) (basic_ranked min_dur segs)
     = filter (\<lambda>c. text_length c = k) (basic_valid_segments min_dur segs)
   \<and> prefix (filter (\<lambda>c. text_length c = k) (py_slice_to num_segments (basic_ranked min_dur segs)))
        (filter (\<lambda>c. text_length c = k) (basic_valid_segments min_dur segs))
   \<and> filter (\<lambda>c. original_score c = k) (spacy_ranked nlp min_dur segs)
     = filter (\<lambda>c. original_score c = k) (candidate_segments nlp min_dur segs)
   \<and> prefix (filter (\<lambda>c. original_score c = k) (py_slice_to num_segments (spacy_ranked nlp min_dur segs)))
        (filter (\<lambda>c. original_score c = k) (candidate_segments nlp min_dur segs))"
proof -
  have b: "filter (\<lambda>c. text_length c = k) (basic_ranked min_dur segs)
     = filter (\<lambda>c. text_length c = k) (basic_valid_segments min_dur segs)"
    by (simp only: basic_ranked_def sort_key_reverse_stable)
  have s: "filter (\<lambda>c. original_score c = k) (spacy_ranked nlp min_dur segs)
     = filter (\<lambda>c. original_score c = k) (candidate_segments nlp min_dur segs)"
    by (simp only: spacy_ranked_def sort_key_reverse_stable)
  have "prefix (filter (\<lambda>c. text_length c = k) (py_slice_to num_segments (basic_ranked min_dur segs)))
      (filter (\<lambda>c. text_length c = k) (basic_ranked min_dur segs))"
    by (rule filter_mono_prefix [OF prefix_py_slice_to])
  moreover have "prefix (filter (\<lambda>c. original_score c = k) (py_slice_to num_segments (spacy_ranked nlp min_dur segs)))
      (filter (\<lambda>c. original_score c = k) (spacy_ranked nlp min_dur segs))"
    by (rule filter_mono_prefix [OF prefix_py_slice_to])
  ultimately show ?thesis
    using b s by simp
qed

theorem ties_keep_input_order_witness:
  "filter (\<lambda>c. text_length c = 3)
      (basic_ranked 1 [\<lparr>seg_text = ''abc'', seg_start = 0, seg_end = 5\<rparr>,
                       \<lparr>seg_text = ''longer'', seg_start = 6, seg_end = 9\<rparr>,
                       \<lparr>seg_text = ''xyz'', seg_start = 10, seg_end = 12\<rparr>])
   = [\<lparr>seg_text = ''abc'', seg_start = 0, seg_end = 5, b_duration = 5, text_length = 3\<rparr>,
      \<lparr>seg_text = ''xyz'', seg_start = 10, seg_end = 12, b_duration = 2, text_length = 3\<rparr>]"
proof -
  have "filter (\<lambda>c. text_length c = 3)
      (basic_valid_segments 1 [\<lparr>seg_text = ''abc'', seg_start = 0, seg_end = 5\<rparr>,
                       \<lparr>seg_text = ''longer'', seg_start = 6, seg_end = 9\<rparr>,
                       \<lparr>seg_text = ''xyz'', seg_start = 10, seg_end = 12\<rparr>])
   = [\<lparr>seg_text = ''abc'', seg_start = 0, seg_end = 5, b_duration = 5, text_length = 3\<rparr>,
      \<lparr>seg_text = ''xyz'', seg_start = 10, seg_end = 12, b_duration = 2, text_length = 3\<rparr>]"
    by (simp add: eval_select)
  then show ?thesis
    using ties_keep_input_order [where k = 3 and min_dur = 1 and segs = "[\<lparr>seg_text = ''abc'', seg_start = 0, seg_end = 5\<rparr>,
                       \<lparr>seg_text = ''longer'', seg_start = 6, seg_end = 9\<rparr>,
                       \<lparr>seg_text = ''xyz'', seg_start = 10, seg_end = 12\<rparr>]"]
    by simp
qed

subsection \<open>Caption sets\<close>

lemma adjust_loop_filter:
  "adjust_loop record (filter P segments)
     = map (\<lambda>orig. \<lparr>seg_text = strip (seg_text orig), seg_start = rebased_start record orig,
                    seg_end = rebased_end record orig\<rparr>)
         (filter (\<lambda>orig. P orig \<and> \<not> (rebased_end record orig - rebased_start record orig \<le> 0)
                    \<and> strip (seg_text orig) \<noteq> []) segments)"
  by (induction segments) (auto simp: Let_def rebased_start_def rebased_end_def)

text \<open>
  Claim C5: the caption set that stage 6 passes to captioning is the caption set as
  specified: the original segments overlapping the record's range (each starts before the
  other ends), without those whose rebased duration is not positive or whose trimmed text is
  empty, with \<open>new_start = max(0, orig_start - record.start)\<close> and
  \<open>new_end = orig_end - record.start\<close>, in transcript order.
\<close>

theorem caption_set_as_specified:
  "adjusted_transcription_segments clip segments = spec_caption_set clip segments"
  unfolding adjusted_transcription_segments_def relevant_whisper_segments_def spec_caption_set_def
    adjust_loop_filter
  by (rule arg_cong [where f = "map _"], rule filter_cong) (auto simp: overlaps_record_def)

theorem caption_set_as_specified_witness:
  "adjusted_transcription_segments \<lparr>seg_text = ''clip'', seg_start = 10, seg_end = 20\<rparr>
      [\<lparr>seg_text = ''before'', seg_start = 0, seg_end = 10\<rparr>,
       \<lparr>seg_text = '' across the start '', seg_start = 8, seg_end = 12\<rparr>,
       \<lparr>seg_text = ''   '', seg_start = 12, seg_end = 14\<rparr>,
       \<lparr>seg_text = ''inside'', seg_start = 14, seg_end = 19\<rparr>,
       \<lparr>seg_text = ''after'', seg_start = 20, seg_end = 25\<rparr>]
   = [\<lparr>seg_text = ''across the start'', seg_start = 0, seg_end = 2\<rparr>,
      \<lparr>seg_text = ''inside'', seg_start = 4, seg_end = 9\<rparr>]"
proof -
  have "spec_caption_set \<lparr>seg_text = ''clip'', seg_start = 10, seg_end = 20\<rparr>
      [\<lparr>seg_text = ''before'', seg_start = 0, seg_end = 10\<rparr>,
       \<lparr>seg_text = '' across the start '', seg_start = 8, seg_end = 12\<rparr>,
       \<lparr>seg_text = ''   '', seg_start = 12, seg_end = 14\<rparr>,
       \<lparr>seg_text = ''inside'', seg_start = 14, seg_end = 19\<rparr>,
       \<lparr>seg_text = ''after'', seg_start = 20, seg_end = 25\<rparr>]
   = [\<lparr>seg_text = ''across the start'', seg_start = 0, seg_end = 2\<rparr>,
      \<lparr>seg_text = ''inside'', seg_start = 4, seg_end = 9\<rparr>]"
    by (simp add: spec_caption_set_def overlaps_record_def rebased_start_def rebased_end_def
        strip_def is_space_def)
  then show ?thesis
    using caption_set_as_specified [where clip = "\<lparr>seg_text = ''clip'', seg_start = 10, seg_end = 20\<rparr>"
      and segments = "[\<lparr>seg_text = ''before'', seg_start = 0, seg_end = 10\<rparr>,
       \<lparr>seg_text = '' across the start '', seg_start = 8, seg_end = 12\<rparr>,
       \<lparr>seg_text = ''   '', seg_start = 12, seg_end = 14\<rparr>,
       \<lparr>seg_text = ''inside'', seg_start = 14, seg_end = 19\<rparr>,
       \<lparr>seg_text = ''after'', seg_start = 20, seg_end = 25\<rparr>]"]
    by simp
qed

subsection \<open>Windows\<close>

text \<open>
  Claim C6 fails on the code: on a transcript of one segment with text, the flush at the
  end of the input calls \<open>format_time\<close>, which content_analysis.py does not bind, and the
  function raises \<open>NameError\<close> instead of returning the window.
\<close>

theorem split_transcript_name_error:
  "split_transcript_by_timestamps
     (Some [\<lparr>seg_text = ''hi'', seg_start = 0, seg_end = 1, seg_words = None\<rparr>]) 60
   = Inl NameError"
  by (simp add: split_transcript_by_timestamps_def content_analysis_format_time_def split_windows_def
      segment_step_def emit_window_def)

text \<open>Without a binding of \<open>format_time\<close> no window is ever emitted.\<close>

lemma word_step_unbound:
  "word_step None interval st w = Inl NameError
   \<or> (\<exists>st'. word_step None interval st w = Inr st'
         \<and> current_segment_texts st' = current_segment_texts st @ [word_text w])"
  by (simp add: word_step_def emit_window_def Let_def)

lemma words_loop_unbound:
  "words_loop None interval st ws = Inl NameError
   \<or> (\<exists>st'. words_loop None interval st ws = Inr st'
         \<and> current_segment_texts st' = current_segment_texts st @ map word_text ws)"
proof (induction ws arbitrary: st)
  case Nil
  then show ?case by simp
next
  case (Cons w ws)
  from word_step_unbound [of interval st w] show ?case
  proof
    assume "word_step None interval st w = Inl NameError"
    then show ?thesis by simp
  next
    assume "\<exists>st'. word_step None interval st w = Inr st'
         \<and> current_segment_texts st' = current_segment_texts st @ [word_text w]"
    then obtain st' where s: "word_step None interval st w = Inr st'"
      and t: "current_segment_texts st' = current_segment_texts st @ [word_text w]" by blast
    from Cons.IH [of st'] show ?thesis
      by (auto simp: s t)
  qed
qed

lemma segment_step_unbound:
  "segment_step None interval st s = Inl NameError
   \<or> (\<exists>st'. segment_step None interval st s = Inr st'
         \<and> current_segment_texts st' = current_segment_texts st @ fragments [s])"
proof (cases "seg_words s")
  case None
  then show ?thesis
    by (simp add: segment_step_def emit_window_def Let_def fragments_def)
next
  case (Some ws)
  define st0 where "st0 = st\<lparr>current_segment_start_time :=
      Some (case current_segment_start_time st of None \<Rightarrow> seg_start s | Some c \<Rightarrow> c)\<rparr>"
  have eq: "segment_step None interval st s = words_loop None interval st0 ws"
    by (simp add: segment_step_def Some st0_def Let_def)
  have "current_segment_texts st0 = current_segment_texts st" by (simp add: st0_def)
  then show ?thesis
    using words_loop_unbound [of interval st0 ws] by (simp add: eq fragments_def Some)
qed

lemma fragments_Cons: "fragments (s # ss) = fragments [s] @ fragments ss"
  by (simp add: fragments_def)

lemma segments_loop_unbound:
  "segments_loop None interval st ss = Inl NameError
   \<or> (\<exists>st'. segments_loop None interval st ss = Inr st'
         \<and> current_segment_texts st' = current_segment_texts st @ fragments ss)"
proof (induction ss arbitrary: st)
  case Nil
  then show ?case by (simp add: fragments_def)
next
  case (Cons s ss)
  from segment_step_unbound [of interval st s] show ?case
  proof
    assume "segment_step None interval st s = Inl NameError"
    then show ?thesis by simp
  next
    assume "\<exists>st'. segment_step None interval st s = Inr st'
         \<and> current_segment_texts st' = current_segment_texts st @ fragments [s]"
    then obtain st' where s: "segment_step None interval st s = Inr st'"
      and t: "current_segment_texts st' = current_segment_texts st @ fragments [s]" by blast
    from Cons.IH [of st'] show ?thesis
      by (auto simp: s t fragments_Cons [of s ss])
  qed
qed

lemma split_transcript_always_name_error:
  assumes "fragments segments \<noteq> []"
  shows "split_transcript_by_timestamps (Some segments) interval = Inl NameError"
proof -
  let ?st0 = "\<lparr>segments_text_time = [], current_segment_texts = [],
               current_segment_start_time = None, last_word_end_time = 0\<rparr>"
  from segments_loop_unbound [of interval ?st0 segments] show ?thesis
  proof
    assume "segments_loop None interval ?st0 segments = Inl NameError"
    then show ?thesis
      by (simp add: split_transcript_by_timestamps_def content_analysis_format_time_def split_windows_def)
  next
    assume "\<exists>st'. segments_loop None interval ?st0 segments = Inr st'
         \<and> current_segment_texts st' = current_segment_texts ?st0 @ fragments segments"
    then obtain st' where s: "segments_loop None interval ?st0 segments = Inr st'"
      and t: "current_segment_texts st' = fragments segments" by auto
    show ?thesis
      using assms
      by (simp add: split_transcript_by_timestamps_def content_analysis_format_time_def split_windows_def
          s t emit_window_def)
  qed
qed

text \<open>With \<open>format_time\<close> bound, the function returns and loses no text.\<close>

lemma word_step_bound:
  "\<exists>st'. word_step (Some f) interval st w = Inr st'
     \<and> state_text st' = state_text st @ word_text w
     \<and> current_segment_start_time st' \<noteq> None"
  by (simp add: word_step_def emit_window_def Let_def state_text_def)

lemma words_loop_bound:
  "\<exists>st'. words_loop (Some f) interval st ws = Inr st'
     \<and> state_text st' = state_text st @ concat (map word_text ws)
     \<and> (current_segment_start_time st \<noteq> None \<longrightarrow> current_segment_start_time st' \<noteq> None)"
proof (induction ws arbitrary: st)
  case Nil
  then show ?case by simp
next
  case (Cons w ws)
  obtain st1 where 1: "word_step (Some f) interval st w = Inr st1"
    "state_text st1 = state_text st @ word_text w" "current_segment_start_time st1 \<noteq> None"
    using word_step_bound [of f interval st w] by blast
  obtain st2 where 2: "words_loop (Some f) interval st1 ws = Inr st2"
    "state_text st2 = state_text st1 @ concat (map word_text ws)"
    "current_segment_start_time st1 \<noteq> None \<longrightarrow> current_segment_start_time st2 \<noteq> None"
    using Cons.IH [of st1] by blast
  show ?case using 1 2 by simp
qed

lemma segment_step_bound:
  "\<exists>st'. segment_step (Some f) interval st s = Inr st'
     \<and> state_text st' = state_text st @ concat (fragments [s])
     \<and> current_segment_start_time st' \<noteq> None"
proof (cases "seg_words s")
  case None
  then show ?thesis
    by (simp add: segment_step_def emit_window_def Let_def state_text_def fragments_def)
next
  case (Some ws)
  define st0 where "st0 = st\<lparr>current_segment_start_time :=
      Some (case current_segment_start_time st of None \<Rightarrow> seg_start s | Some c \<Rightarrow> c)\<rparr>"
  have eq: "segment_step (Some f) interval st s = words_loop (Some f) interval st0 ws"
    by (simp add: segment_step_def Some st0_def Let_def)
  have 0: "state_text st0 = state_text st" "current_segment_start_time st0 \<noteq> None"
    by (simp_all add: st0_def state_text_def)
  show ?thesis
    using words_loop_bound [of f interval st0 ws] 0 by (auto simp: eq fragments_def Some)
qed

lemma segments_loop_bound:
  "\<exists>st'. segments_loop (Some f) interval st ss = Inr st'
     \<and> state_text st' = state_text st @ concat (fragments ss)
     \<and> (ss \<noteq> [] \<or> current_segment_start_time st \<noteq> None \<longrightarrow> current_segment_start_time st' \<noteq> None)"
proof (induction ss arbitrary: st)
  case Nil
  then show ?case by (simp add: fragments_def)
next
  case (Cons s ss)
  obtain st1 where 1: "segment_step (Some f) interval st s = Inr st1"
    "state_text st1 = state_text st @ concat (fragments [s])" "current_segment_start_time st1 \<noteq> None"
    using segment_step_bound [of f interval st s] by blast
  obtain st2 where 2: "segments_loop (Some f) interval st1 ss = Inr st2"
    "state_text st2 = state_text st1 @ concat (fragments ss)"
    "ss \<noteq> [] \<or> current_segment_start_time st1 \<noteq> None \<longrightarrow> current_segment_start_time st2 \<noteq> None"
    using Cons.IH [of st1] by blast
  show ?case using 1 2 by (simp add: fragments_Cons [of s ss])
qed

lemma split_windows_bound_keeps_text:
  "\<exists>ws. split_windows (Some f) (Some segments) interval = Inr ws
     \<and> concat (map win_text ws) = concat (fragments segments)"
proof -
  let ?st0 = "\<lparr>segments_text_time = [], current_segment_texts = [],
               current_segment_start_time = None, last_word_end_time = 0\<rparr>"
  obtain st where st: "segments_loop (Some f) interval ?st0 segments = Inr st"
    "state_text st = state_text ?st0 @ concat (fragments segments)"
    "segments \<noteq> [] \<or> current_segment_start_time ?st0 \<noteq> None \<longrightarrow> current_segment_start_time st \<noteq> None"
    using segments_loop_bound [of f interval ?st0 segments] by blast
  have kept: "state_text st = concat (fragments segments)"
    using st(2) by (simp add: state_text_def)
  show ?thesis
  proof (cases "current_segment_texts st = []")
    case True
    then show ?thesis
      using kept by (simp add: split_windows_def st(1) state_text_def)
  next
    case False
    have "segments \<noteq> []"
    proof
      assume "segments = []"
      then have "st = ?st0" using st(1) by simp
      then show False using False by simp
    qed
    then obtain c where c: "current_segment_start_time st = Some c"
      using st(3) by auto
    show ?thesis
      using kept False by (simp add: split_windows_def st(1) c emit_window_def state_text_def)
  qed
qed

subsection \<open>Stages 5 and 6\<close>

lemma path_join_not_empty: "a \<noteq> [] \<or> b \<noteq> [] \<Longrightarrow> path_join a b \<noteq> []"
  by (auto simp: path_join_def)

lemma raw_path_not_empty: "extracted_segment_output_path E A i s \<noteq> []"
  by (simp add: extracted_segment_output_path_def raw_clips_dir_def path_join_not_empty)

lemma artifact_paths_not_empty:
  "formatted_aspect_path A raw \<noteq> []" "captioned_output_path A raw \<noteq> []"
  by (simp_all add: formatted_aspect_path_def captioned_output_path_def path_join_not_empty)

lemma convert_result:
  "convert_video_aspect_ratio E inp out ratio = Some p \<Longrightarrow> p = out"
  by (auto simp: convert_video_aspect_ratio_def split: if_splits)

lemma concat_singletons:
  "\<forall>x\<in>set xs. length (g x) \<le> 1 \<Longrightarrow>
   concat (map g xs) = map (\<lambda>x. hd (g x)) (filter (\<lambda>x. g x \<noteq> []) xs)"
proof (induction xs)
  case Nil
  then show ?case by simp
next
  case (Cons x xs)
  have "length (g x) \<le> 1" using Cons.prems by simp
  then have "g x = [] \<or> g x = [hd (g x)]"
    by (cases "g x") auto
  then show ?case using Cons by auto
qed

lemma stage5_enumerate:
  "stage5 E A v i ss
     = map (\<lambda>k. extracted_record E A (fst k) (snd k))
         (filter (\<lambda>k. extract_video_segments E v (seg_start (snd k)) (seg_end (snd k))
                          (extracted_segment_output_path E A (fst k) (snd k)) = CutTrue)
            (enumerate i ss))"
  by (induction ss arbitrary: i) (auto split: cut_outcome.splits)

lemma stage6_result:
  "stage6 E A segs recs = Inr processed \<Longrightarrow>
   processed = concat (map (\<lambda>r. case process_segment E A segs r of
                                    Inr (Some r') \<Rightarrow> [r'] | _ \<Rightarrow> []) recs)"
  by (induction recs arbitrary: processed) (auto split: sum.splits option.splits)

lemma stage6_returns:
  "\<forall>r\<in>set recs. \<forall>e. process_segment E A segs r \<noteq> Inl e \<Longrightarrow> \<exists>processed. stage6 E A segs recs = Inr processed"
  by (induction recs) (auto split: sum.splits option.splits)

lemma final_segment_paths_concat:
  "final_segment_paths (concat xss) = concat (map final_segment_paths xss)"
  by (induction xss) (simp_all add: final_segment_paths_def)

lemma process_segment_never_raises:
  "\<forall>x y z. captioning E x y z \<noteq> CaptionRaised \<Longrightarrow> process_segment E A segs r \<noteq> Inl e"
  by (auto simp: process_segment_def split: option.splits caption_outcome.splits)

lemma process_segment_final:
  assumes "process_segment E A segs r = Inr (Some r')" and "raw_clip_path r = Some raw"
  shows "r' = r\<lparr>final_clip_path := Some (formatted_aspect_path A raw)\<rparr>
       \<or> r' = r\<lparr>final_clip_path := Some (captioned_output_path A raw)\<rparr>"
  using assms
  by (auto simp: process_segment_def split: option.splits if_splits caption_outcome.splits
      dest: convert_result)

lemma process_segment_dropped:
  assumes "raw_clip_path r = Some raw"
    and "convert_video_aspect_ratio E raw (formatted_aspect_path A raw) (output_aspect_ratio A) = None"
  shows "process_segment E A segs r = Inr None"
  using assms by (simp add: process_segment_def)

lemma process_segment_kept:
  assumes "raw_clip_path r = Some raw" and "raw \<noteq> []" and "path_exists E raw"
    and "convert_video_aspect_ratio E raw (formatted_aspect_path A raw) (output_aspect_ratio A) \<noteq> None"
    and "\<forall>x y z. captioning E x y z \<noteq> CaptionRaised"
  shows "\<exists>r'. process_segment E A segs r = Inr (Some r')"
proof -
  obtain p where p: "convert_video_aspect_ratio E raw (formatted_aspect_path A raw) (output_aspect_ratio A) = Some p"
    using assms(4) by auto
  then have "p = formatted_aspect_path A raw" by (rule convert_result)
  then have "p \<noteq> []" by (simp add: artifact_paths_not_empty)
  then show ?thesis
    using assms(1-3,5) p
    by (auto simp: process_segment_def split: caption_outcome.splits)
qed

lemma segment_stages_paths:
  assumes "segment_stages E A v segs selected = Inr paths"
  defines "g \<equiv> \<lambda>k. case process_segment E A segs (extracted_record E A (fst k) (snd k)) of
                        Inr (Some r') \<Rightarrow> final_segment_paths [r'] | _ \<Rightarrow> []"
    and "cutok \<equiv> \<lambda>k. extract_video_segments E v (seg_start (snd k)) (seg_end (snd k))
                          (extracted_segment_output_path E A (fst k) (snd k)) = CutTrue"
  shows "paths = map (\<lambda>k. hd (g k)) (filter (\<lambda>k. g k \<noteq> []) (filter cutok (enumerate 0 selected)))"
    and "\<forall>k. g k \<noteq> [] \<longrightarrow> final_artifact_of E A k (hd (g k))"
    and "\<forall>k. length (g k) \<le> 1"
proof -
  obtain processed where st: "stage6 E A segs (stage5 E A v 0 selected) = Inr processed"
    and paths: "paths = final_segment_paths processed"
    using assms(1) by (auto simp: segment_stages_def split: sum.splits)
  have one: "length (g k) \<le> 1" for k
    by (simp add: g_def final_segment_paths_def split: sum.splits option.splits)
  then show "\<forall>k. length (g k) \<le> 1" by simp
  have pt: "final_segment_paths (case x of Inr (Some r') \<Rightarrow> [r'] | _ \<Rightarrow> [])
      = (case x of Inr (Some r') \<Rightarrow> final_segment_paths [r'] | _ \<Rightarrow> [])"
    for x :: "error + clip_record option"
    by (simp add: final_segment_paths_def split: sum.splits option.splits)
  have "paths = concat (map g (filter cutok (enumerate 0 selected)))"
    unfolding paths stage6_result [OF st] final_segment_paths_concat stage5_enumerate
    by (simp add: comp_def g_def cutok_def pt)
  then show "paths = map (\<lambda>k. hd (g k)) (filter (\<lambda>k. g k \<noteq> []) (filter cutok (enumerate 0 selected)))"
    using concat_singletons [of "filter cutok (enumerate 0 selected)" g] one by simp
  show "\<forall>k. g k \<noteq> [] \<longrightarrow> final_artifact_of E A k (hd (g k))"
  proof (intro allI impI)
    fix k assume ne: "g k \<noteq> []"
    let ?r = "extracted_record E A (fst k) (snd k)"
    let ?raw = "extracted_segment_output_path E A (fst k) (snd k)"
    obtain r' where r': "process_segment E A segs ?r = Inr (Some r')"
      using ne by (auto simp: g_def split: sum.splits option.splits)
    have raw: "raw_clip_path ?r = Some ?raw" by (simp add: extracted_record_def)
    from process_segment_final [OF r' raw]
    show "final_artifact_of E A k (hd (g k))"
      by (auto simp: g_def r' final_segment_paths_def final_artifact_of_def artifact_paths_not_empty)
  qed
qed

text \<open>
  When no captioning call raises, stages 5 and 6 return, and the final list has exactly one
  path for each selected segment that was cut, whose raw clip exists and whose conversion
  returned a path, in the order of selection.
\<close>

lemma segment_stages_without_raise:
  assumes noraise: "\<forall>x y z. captioning E x y z \<noteq> CaptionRaised"
  shows "\<exists>paths. segment_stages E A video segments selected = Inr paths
     \<and> list_all2 (final_artifact_of E A)
          (filter (\<lambda>k. extract_video_segments E video (seg_start (snd k)) (seg_end (snd k))
                            (extracted_segment_output_path E A (fst k) (snd k)) = CutTrue
                        \<and> path_exists E (extracted_segment_output_path E A (fst k) (snd k))
                        \<and> convert_video_aspect_ratio E (extracted_segment_output_path E A (fst k) (snd k))
                             (formatted_aspect_path A (extracted_segment_output_path E A (fst k) (snd k)))
                             (output_aspect_ratio A) \<noteq> None)
             (enumerate 0 selected))
          paths"
proof -
  define g where "g = (\<lambda>k. case process_segment E A segments (extracted_record E A (fst k) (snd k)) of
                        Inr (Some r') \<Rightarrow> final_segment_paths [r'] | _ \<Rightarrow> [])"
  define cutok where "cutok = (\<lambda>k. extract_video_segments E video (seg_start (snd k)) (seg_end (snd k))
                          (extracted_segment_output_path E A (fst k) (snd k)) = CutTrue)"
  define conv where "conv = (\<lambda>k. path_exists E (extracted_segment_output_path E A (fst k) (snd k))
      \<and> convert_video_aspect_ratio E (extracted_segment_output_path E A (fst k) (snd k))
           (formatted_aspect_path A (extracted_segment_output_path E A (fst k) (snd k)))
           (output_aspect_ratio A) \<noteq> None)"
  let ?ks = "enumerate 0 selected"
  have "\<exists>processed. stage6 E A segments (stage5 E A video 0 selected) = Inr processed"
    by (rule stage6_returns) (simp add: process_segment_never_raises [OF noraise])
  then obtain out where run: "segment_stages E A video segments selected = Inr out"
    by (auto simp: segment_stages_def)
  have out: "out = map (\<lambda>k. hd (g k)) (filter (\<lambda>k. g k \<noteq> []) (filter cutok ?ks))"
    using segment_stages_paths(1) [OF run] unfolding g_def cutok_def .
  have art: "\<forall>k. g k \<noteq> [] \<longrightarrow> final_artifact_of E A k (hd (g k))"
    using segment_stages_paths(2) [OF run] by (simp add: g_def)
  have surv: "g k \<noteq> [] \<longleftrightarrow> conv k" for k
  proof -
    let ?r = "extracted_record E A (fst k) (snd k)"
    let ?raw = "extracted_segment_output_path E A (fst k) (snd k)"
    have raw: "raw_clip_path ?r = Some ?raw" by (simp add: extracted_record_def)
    show ?thesis
    proof (cases "conv k")
      case True
      then have ex: "path_exists E ?raw"
        and cv: "convert_video_aspect_ratio E ?raw (formatted_aspect_path A ?raw) (output_aspect_ratio A) \<noteq> None"
        by (simp_all add: conv_def)
      obtain r' where r': "process_segment E A segments ?r = Inr (Some r')"
        using process_segment_kept [OF raw raw_path_not_empty ex cv noraise] by blast
      from process_segment_final [OF r' raw] have "g k \<noteq> []"
        by (auto simp: g_def r' final_segment_paths_def artifact_paths_not_empty)
      then show ?thesis using True by simp
    next
      case False
      then have "process_segment E A segments ?r = Inr None"
        by (auto simp: conv_def process_segment_def raw)
      then show ?thesis using False by (simp add: g_def)
    qed
  qed
  have keep: "filter (\<lambda>k. g k \<noteq> []) (filter cutok ?ks) = filter (\<lambda>k. cutok k \<and> conv k) ?ks"
    by (simp add: surv conj_commute)
  have "list_all2 (final_artifact_of E A) (filter (\<lambda>k. cutok k \<and> conv k) ?ks) out"
    unfolding out keep using art surv by (simp add: list_all2_map2 list_all2_same)
  then show ?thesis
    using run unfolding cutok_def conv_def by blast
qed

text \<open>An exception in the pass of one record ends stage 6 for all of them.\<close>

lemma stage6_raise_aborts:
  "r \<in> set recs \<Longrightarrow> process_segment E A segments r = Inl e \<Longrightarrow>
   \<exists>e'. stage6 E A segments recs = Inl e'"
  by (induction recs) (auto split: sum.splits option.splits)

text \<open>
  Claim C3 fails on the code. Stage 5 wraps each cut in \<open>try\<close>/\<open>except\<close> and goes on to the
  next segment; stage 6 has no such guard. Of three selected segments that are all cut and
  converted, the captioning call of the second raises: the exception leaves the loop and no
  list of final paths is produced, where the claim has the paths of the first and the third.
  The second conjunct is the same run without the second segment: the other two are
  captioned and returned in order.
\<close>

theorem captioning_raise_aborts_run:
  "segment_stages
     \<lparr>segment_base_name = (\<lambda>i s. ''segment_'' @ seg_text s @ ''.mp4''), path_exists = (\<lambda>p. True),
      run_ffmpeg = (\<lambda>v s e p. CutTrue), write_cropped = (\<lambda>i p r. True),
      captioning = (\<lambda>i c p. if i = ''out/final_clips/segment_b_formatted.mp4''
                               then CaptionRaised else OutputExists)\<rparr>
     \<lparr>output_dir = ''out'', output_aspect_ratio = ''9:16'', skip_captioning = False\<rparr>
     ''video.mp4''
     [\<lparr>seg_text = ''a'', seg_start = 0, seg_end = 40\<rparr>,
      \<lparr>seg_text = ''b'', seg_start = 50, seg_end = 90\<rparr>,
      \<lparr>seg_text = ''c'', seg_start = 100, seg_end = 140\<rparr>]
     [\<lparr>seg_text = ''a'', seg_start = 0, seg_end = 40\<rparr>,
      \<lparr>seg_text = ''b'', seg_start = 50, seg_end = 90\<rparr>,
      \<lparr>seg_text = ''c'', seg_start = 100, seg_end = 140\<rparr>]
   = Inl CollaboratorError
   \<and> segment_stages
     \<lparr>segment_base_name = (\<lambda>i s. ''segment_'' @ seg_text s @ ''.mp4''), path_exists = (\<lambda>p. True),
      run_ffmpeg = (\<lambda>v s e p. CutTrue), write_cropped = (\<lambda>i p r. True),
      captioning = (\<lambda>i c p. if i = ''out/final_clips/segment_b_formatted.mp4''
                               then CaptionRaised else OutputExists)\<rparr>
     \<lparr>output_dir = ''out'', output_aspect_ratio = ''9:16'', skip_captioning = False\<rparr>
     ''video.mp4''
     [\<lparr>seg_text = ''a'', seg_start = 0, seg_end = 40\<rparr>,
      \<lparr>seg_text = ''b'', seg_start = 50, seg_end = 90\<rparr>,
      \<lparr>seg_text = ''c'', seg_start = 100, seg_end = 140\<rparr>]
     [\<lparr>seg_text = ''a'', seg_start = 0, seg_end = 40\<rparr>,
      \<lparr>seg_text = ''c'', seg_start = 100, seg_end = 140\<rparr>]
   = Inr [''out/final_clips/segment_a_captioned.mp4'', ''out/final_clips/segment_c_captioned.mp4'']"
  by code_simp

lemma final_segment_paths_member:
  "x \<in> set recs \<Longrightarrow> final_clip_path x = Some p \<Longrightarrow> p \<noteq> [] \<Longrightarrow> p \<in> set (final_segment_paths recs)"
proof (induction recs)
  case Nil
  then show ?case by simp
next
  case (Cons y ys)
  have step: "final_segment_paths (y # ys)
      = (case final_clip_path y of None \<Rightarrow> [] | Some q \<Rightarrow> if q = [] then [] else [q])
        @ final_segment_paths ys"
    by (simp add: final_segment_paths_def)
  show ?case
  proof (cases "x = y")
    case True
    then show ?thesis using Cons.prems by (simp add: step)
  next
    case False
    then have "p \<in> set (final_segment_paths ys)" using Cons by simp
    then show ?thesis by (simp add: step)
  qed
qed

text \<open>
  Claim C4, as the code has it. A record reaches captioning when its raw clip exists, the
  aspect-ratio conversion returned a path and captioning is not skipped. If its caption set
  is empty, or the captioning call returns and leaves no captioned file, the pass of the
  stage-6 loop keeps the record with the converted, uncaptioned file as its final clip; and
  whenever the loop runs to its end, the record is in the working set it returns and that
  path is in the final list. The loop runs to its end whenever no captioning call raises.
\<close>

theorem uncaptioned_record_is_kept:
  "raw_clip_path r = Some raw \<Longrightarrow> raw \<noteq> [] \<Longrightarrow> path_exists E raw \<Longrightarrow>
   convert_video_aspect_ratio E raw (formatted_aspect_path A raw) (output_aspect_ratio A) = Some converted \<Longrightarrow>
   \<not> skip_captioning A \<Longrightarrow>
   adjusted_transcription_segments r segments = []
     \<or> captioning E converted (adjusted_transcription_segments r segments) (captioned_output_path A raw)
         = OutputMissing \<Longrightarrow>
   process_segment E A segments r = Inr (Some (r\<lparr>final_clip_path := Some converted\<rparr>))
   \<and> (\<forall>recs processed.
         r \<in> set recs \<and> stage6 E A segments recs = Inr processed \<longrightarrow>
         r\<lparr>final_clip_path := Some converted\<rparr> \<in> set processed
         \<and> converted \<in> set (final_segment_paths processed))
   \<and> (\<forall>recs. (\<forall>x y z. captioning E x y z \<noteq> CaptionRaised) \<longrightarrow>
         (\<exists>processed. stage6 E A segments recs = Inr processed))"
proof -
  assume raw: "raw_clip_path r = Some raw" "raw \<noteq> []" "path_exists E raw"
    and cv: "convert_video_aspect_ratio E raw (formatted_aspect_path A raw) (output_aspect_ratio A) = Some converted"
    and ns: "\<not> skip_captioning A"
    and cap: "adjusted_transcription_segments r segments = []
     \<or> captioning E converted (adjusted_transcription_segments r segments) (captioned_output_path A raw)
         = OutputMissing"
  have "converted = formatted_aspect_path A raw" using cv by (rule convert_result)
  then have ne: "converted \<noteq> []" by (simp add: artifact_paths_not_empty)
  have p: "process_segment E A segments r = Inr (Some (r\<lparr>final_clip_path := Some converted\<rparr>))"
    using raw cv ns cap ne by (auto simp: process_segment_def)
  have loop: "r\<lparr>final_clip_path := Some converted\<rparr> \<in> set processed
         \<and> converted \<in> set (final_segment_paths processed)"
    if r: "r \<in> set recs" and st: "stage6 E A segments recs = Inr processed" for recs processed
  proof -
    have m: "r\<lparr>final_clip_path := Some converted\<rparr> \<in> set processed"
      unfolding stage6_result [OF st] using r p by (auto intro!: bexI [of _ r])
    then have "converted \<in> set (final_segment_paths processed)"
      by (rule final_segment_paths_member) (simp_all add: ne)
    with m show ?thesis by simp
  qed
  have ret: "\<exists>processed. stage6 E A segments recs = Inr processed"
    if "\<forall>x y z. captioning E x y z \<noteq> CaptionRaised" for recs
    by (rule stage6_returns) (simp add: process_segment_never_raises [OF that])
  show ?thesis
    using p loop ret by blast
qed

theorem uncaptioned_record_is_kept_witness:
  "process_segment
     \<lparr>segment_base_name = (\<lambda>i s. ''segment_'' @ seg_text s @ ''.mp4''), path_exists = (\<lambda>p. True),
      run_ffmpeg = (\<lambda>v s e p. CutTrue), write_cropped = (\<lambda>i p r. True),
      captioning = (\<lambda>i c p. OutputMissing)\<rparr>
     \<lparr>output_dir = ''out'', output_aspect_ratio = ''9:16'', skip_captioning = False\<rparr>
     [\<lparr>seg_text = ''a'', seg_start = 0, seg_end = 40\<rparr>]
     \<lparr>seg_text = ''a'', seg_start = 0, seg_end = 40,
       raw_clip_path = Some ''out/raw_clips/segment_a.mp4'', final_clip_path = None\<rparr>
   = Inr (Some \<lparr>seg_text = ''a'', seg_start = 0, seg_end = 40,
           raw_clip_path = Some ''out/raw_clips/segment_a.mp4'',
           final_clip_path = Some ''out/final_clips/segment_a_formatted.mp4''\<rparr>)
   \<and> stage6
     \<lparr>segment_base_name = (\<lambda>i s. ''segment_'' @ seg_text s @ ''.mp4''), path_exists = (\<lambda>p. True),
      run_ffmpeg = (\<lambda>v s e p. CutTrue), write_cropped = (\<lambda>i p r. True),
      captioning = (\<lambda>i c p. OutputMissing)\<rparr>
     \<lparr>output_dir = ''out'', output_aspect_ratio = ''9:16'', skip_captioning = False\<rparr>
     [\<lparr>seg_text = ''a'', seg_start = 0, seg_end = 40\<rparr>]
     [\<lparr>seg_text = ''a'', seg_start = 0, seg_end = 40,
       raw_clip_path = Some ''out/raw_clips/segment_a.mp4'', final_clip_path = None\<rparr>]
   = Inr [\<lparr>seg_text = ''a'', seg_start = 0, seg_end = 40,
           raw_clip_path = Some ''out/raw_clips/segment_a.mp4'',
           final_clip_path = Some ''out/final_clips/segment_a_formatted.mp4''\<rparr>]
   \<and> ''out/final_clips/segment_a_formatted.mp4''
       \<in> set (final_segment_paths
           [\<lparr>seg_text = ''a'', seg_start = 0, seg_end = 40,
             raw_clip_path = Some ''out/raw_clips/segment_a.mp4'',
             final_clip_path = Some ''out/final_clips/segment_a_formatted.mp4''\<rparr>])"
proof -
  let ?E = "\<lparr>segment_base_name = (\<lambda>i s. ''segment_'' @ seg_text s @ ''.mp4''), path_exists = (\<lambda>p. True),
      run_ffmpeg = (\<lambda>v s e p. CutTrue), write_cropped = (\<lambda>i p r. True),
      captioning = (\<lambda>i c p. OutputMissing)\<rparr>"
  let ?A = "\<lparr>output_dir = ''out'', output_aspect_ratio = ''9:16'', skip_captioning = False\<rparr>"
  let ?r = "\<lparr>seg_text = ''a'', seg_start = 0, seg_end = 40,
       raw_clip_path = Some ''out/raw_clips/segment_a.mp4'', final_clip_path = None\<rparr>"
  let ?r' = "\<lparr>seg_text = ''a'', seg_start = 0, seg_end = 40,
           raw_clip_path = Some ''out/raw_clips/segment_a.mp4'',
           final_clip_path = Some ''out/final_clips/segment_a_formatted.mp4''\<rparr>"
  let ?segs = "[\<lparr>seg_text = ''a'', seg_start = 0, seg_end = 40\<rparr>]"
  have run: "stage6 ?E ?A ?segs [?r] = Inr [?r']"
    by code_simp
  have cv: "convert_video_aspect_ratio ?E ''out/raw_clips/segment_a.mp4''
      (formatted_aspect_path ?A ''out/raw_clips/segment_a.mp4'') (output_aspect_ratio ?A)
      = Some ''out/final_clips/segment_a_formatted.mp4''"
    by code_simp
  have all: "process_segment ?E ?A ?segs ?r
        = Inr (Some (?r\<lparr>final_clip_path := Some ''out/final_clips/segment_a_formatted.mp4''\<rparr>))
     \<and> (\<forall>recs processed.
         ?r \<in> set recs \<and> stage6 ?E ?A ?segs recs = Inr processed \<longrightarrow>
         ?r\<lparr>final_clip_path := Some ''out/final_clips/segment_a_formatted.mp4''\<rparr> \<in> set processed
         \<and> ''out/final_clips/segment_a_formatted.mp4'' \<in> set (final_segment_paths processed))
     \<and> (\<forall>recs. (\<forall>x y z. captioning ?E x y z \<noteq> CaptionRaised) \<longrightarrow>
         (\<exists>processed. stage6 ?E ?A ?segs recs = Inr processed))"
    by (rule uncaptioned_record_is_kept [OF _ _ _ cv]) simp_all
  from all have one: "process_segment ?E ?A ?segs ?r = Inr (Some ?r')" by simp
  from all have "?r \<in> set [?r] \<and> stage6 ?E ?A ?segs [?r] = Inr [?r'] \<longrightarrow>
      ''out/final_clips/segment_a_formatted.mp4'' \<in> set (final_segment_paths [?r'])"
    by blast
  then have mem: "''out/final_clips/segment_a_formatted.mp4'' \<in> set (final_segment_paths [?r'])"
    using run by simp
  show ?thesis
    by (intro conjI) (rule one, rule run, rule mem)
qed

text \<open>
  A run in which the captioning call leaves no captioned file: the record is kept and the
  final list holds its formatted clip.
\<close>

theorem failed_captioning_keeps_record_counterexample:
  "captioning
     \<lparr>segment_base_name = (\<lambda>i s. ''segment_'' @ seg_text s @ ''.mp4''), path_exists = (\<lambda>p. True),
      run_ffmpeg = (\<lambda>v s e p. CutTrue), write_cropped = (\<lambda>i p r. True),
      captioning = (\<lambda>i c p. OutputMissing)\<rparr>
     ''out/final_clips/segment_a_formatted.mp4''
     [\<lparr>seg_text = ''a'', seg_start = 0, seg_end = 40\<rparr>]
     ''out/final_clips/segment_a_captioned.mp4'' = OutputMissing
   \<and> segment_stages
     \<lparr>segment_base_name = (\<lambda>i s. ''segment_'' @ seg_text s @ ''.mp4''), path_exists = (\<lambda>p. True),
      run_ffmpeg = (\<lambda>v s e p. CutTrue), write_cropped = (\<lambda>i p r. True),
      captioning = (\<lambda>i c p. OutputMissing)\<rparr>
     \<lparr>output_dir = ''out'', output_aspect_ratio = ''9:16'', skip_captioning = False\<rparr>
     ''video.mp4''
     [\<lparr>seg_text = ''a'', seg_start = 0, seg_end = 40\<rparr>]
     [\<lparr>seg_text = ''a'', seg_start = 0, seg_end = 40\<rparr>]
   = Inr [''out/final_clips/segment_a_formatted.mp4'']"
  by code_simp

end
